theory Spec2Isabelle
  imports Main "HOL-Library.Sublist" "HOL-Library.Signed_Division" "HOL-Library.Word"
begin

section \<open>Go library functions on strings\<close>

text \<open>
  A Go string is a sequence of bytes, and so is \<open>string\<close> here (\<open>char\<close> has 8 bits).
  The functions below are the parts of the packages \<open>strings\<close> and \<open>regexp\<close> that the
  proxy calls, with the results of the library.
\<close>

definition HasPrefix :: "string \<Rightarrow> string \<Rightarrow> bool" where
  "HasPrefix s p = prefix p s"

definition TrimPrefix :: "string \<Rightarrow> string \<Rightarrow> string" where
  "TrimPrefix s p = (if HasPrefix s p then drop (length p) s else s)"

text \<open>\<open>strings.Index\<close>: the position of the first occurrence; Go's \<open>-1\<close> is \<open>None\<close>.\<close>

fun Index :: "string \<Rightarrow> string \<Rightarrow> nat option" where
  "Index [] sep = (if sep = [] then Some 0 else None)"
| "Index (c # cs) sep =
     (if prefix sep (c # cs) then Some 0
      else (case Index cs sep of None \<Rightarrow> None | Some i \<Rightarrow> Some (Suc i)))"

lemma Index_le: "Index s sep = Some i \<Longrightarrow> i + length sep \<le> length s"
proof (induction s arbitrary: i)
  case Nil
  then show ?case by (simp split: if_splits)
next
  case (Cons c cs)
  then show ?case
    by (auto split: if_splits option.splits dest: prefix_length_le)
qed

text \<open>\<open>strings.LastIndex\<close>: the position of the last occurrence.\<close>

definition LastIndex :: "string \<Rightarrow> string \<Rightarrow> nat option" where
  "LastIndex s sep =
     (case Index (rev s) (rev sep) of
        None \<Rightarrow> None
      | Some j \<Rightarrow> Some (length s - length sep - j))"

text \<open>
  \<open>strings.ReplaceAll\<close> replaces the non-overlapping occurrences of \<open>old\<close> from the
  left. The proxy calls it with a non-empty \<open>old\<close> only; the empty pattern (which Go
  expands between all runes) is left alone here.
\<close>

function ReplaceAll :: "string \<Rightarrow> string \<Rightarrow> string \<Rightarrow> string" where
  "ReplaceAll s old new =
     (if old = [] then s
      else (case Index s old of
              None \<Rightarrow> s
            | Some i \<Rightarrow> take i s @ new @ ReplaceAll (drop (i + length old) s) old new))"
  by pat_completeness auto
termination
proof (relation "measure (\<lambda>(s, old, new). length s)")
  show "wf (measure (\<lambda>(s, old, new). length s))" by simp
next
  fix s old new :: string and i :: nat
  assume "old \<noteq> []" and "Index s old = Some i"
  then show "((drop (i + length old) s, old, new), (s, old, new))
      \<in> measure (\<lambda>(s, old, new). length s)"
    using Index_le [of s old i] by (cases old) auto
qed

text \<open>
  The encodings (UTF-8) of the code points for which \<open>unicode.IsSpace\<close> holds: tab,
  line feed, vertical tab, form feed, carriage return, space, U+0085, U+00A0, U+1680,
  U+2000 to U+200A, U+2028, U+2029, U+202F, U+205F and U+3000.
\<close>

definition space_runes :: "string list" where
  "space_runes =
     [[CHR 0x09], [CHR 0x0A], [CHR 0x0B], [CHR 0x0C], [CHR 0x0D], [CHR 0x20],
      [CHR 0xC2, CHR 0x85], [CHR 0xC2, CHR 0xA0],
      [CHR 0xE1, CHR 0x9A, CHR 0x80],
      [CHR 0xE2, CHR 0x80, CHR 0x80], [CHR 0xE2, CHR 0x80, CHR 0x81],
      [CHR 0xE2, CHR 0x80, CHR 0x82], [CHR 0xE2, CHR 0x80, CHR 0x83],
      [CHR 0xE2, CHR 0x80, CHR 0x84], [CHR 0xE2, CHR 0x80, CHR 0x85],
      [CHR 0xE2, CHR 0x80, CHR 0x86], [CHR 0xE2, CHR 0x80, CHR 0x87],
      [CHR 0xE2, CHR 0x80, CHR 0x88], [CHR 0xE2, CHR 0x80, CHR 0x89],
      [CHR 0xE2, CHR 0x80, CHR 0x8A],
      [CHR 0xE2, CHR 0x80, CHR 0xA8], [CHR 0xE2, CHR 0x80, CHR 0xA9],
      [CHR 0xE2, CHR 0x80, CHR 0xAF],
      [CHR 0xE2, CHR 0x81, CHR 0x9F],
      [CHR 0xE3, CHR 0x80, CHR 0x80]]"

text \<open>The white space rune a string starts with, and the one it ends with.\<close>

definition leading_space :: "string \<Rightarrow> string option" where
  "leading_space s = find (\<lambda>r. prefix r s) space_runes"

definition trailing_space :: "string \<Rightarrow> string option" where
  "trailing_space s = find (\<lambda>r. prefix (rev r) (rev s)) space_runes"

function TrimLeftSpace :: "string \<Rightarrow> string" where
  "TrimLeftSpace s =
     (case leading_space s of
        None \<Rightarrow> s
      | Some r \<Rightarrow> TrimLeftSpace (drop (length r) s))"
  by pat_completeness auto
termination
proof (relation "measure length")
  show "wf (measure length)" by simp
next
  fix s r :: string
  assume "leading_space s = Some r"
  then have "r \<in> set space_runes" and "prefix r s"
    by (auto simp: leading_space_def find_Some_iff)
  then have "r \<noteq> []" and "length r \<le> length s"
    by (auto simp: space_runes_def dest: prefix_length_le)
  then show "(drop (length r) s, s) \<in> measure length"
    by (cases r) auto
qed

function TrimRightSpace :: "string \<Rightarrow> string" where
  "TrimRightSpace s =
     (case trailing_space s of
        None \<Rightarrow> s
      | Some r \<Rightarrow> TrimRightSpace (take (length s - length r) s))"
  by pat_completeness auto
termination
proof (relation "measure length")
  show "wf (measure length)" by simp
next
  fix s r :: string
  assume "trailing_space s = Some r"
  then have "r \<in> set space_runes" and "prefix (rev r) (rev s)"
    by (auto simp: trailing_space_def find_Some_iff)
  then have "r \<noteq> []" and "length r \<le> length s"
    by (auto simp: space_runes_def dest: prefix_length_le)
  then show "(take (length s - length r) s, s) \<in> measure length"
    by (cases r) auto
qed

text \<open>\<open>strings.TrimSpace\<close>: all leading and trailing white space removed.\<close>

definition TrimSpace :: "string \<Rightarrow> string" where
  "TrimSpace s = TrimRightSpace (TrimLeftSpace s)"

text \<open>
  \<open>regexp.MustCompile(`(?s)<summary>.*?</summary>`).ReplaceAllString(s, "")\<close>: the
  leftmost \<open><summary>\<close> matches up to the first \<open></summary>\<close> after it (the star is
  lazy and the dot matches line feeds); the search goes on after the match. When no
  \<open></summary>\<close> follows the leftmost opener, none follows a later one.
\<close>

function remove_summary :: "string \<Rightarrow> string" where
  "remove_summary s =
     (case Index s ''<summary>'' of
        None \<Rightarrow> s
      | Some i \<Rightarrow>
          (case Index (drop (i + 9) s) ''</summary>'' of
             None \<Rightarrow> s
           | Some j \<Rightarrow> take i s @ remove_summary (drop (i + 9 + j + 10) s)))"
  by pat_completeness auto
termination
proof (relation "measure length")
  show "wf (measure length)" by simp
next
  fix s :: string and i j :: nat
  assume "Index s ''<summary>'' = Some i"
  then have "i + 9 \<le> length s"
    using Index_le [of s "''<summary>''" i] by simp
  then show "(drop (i + 9 + j + 10) s, s) \<in> measure length"
    by simp
qed

text \<open>
  \<open>regexp.MustCompile(`<details[^>]*>`).ReplaceAllString(s, repl)\<close>: the leftmost
  \<open><details\<close> matches up to the first \<open>>\<close> after it (the class \<open>[^>]\<close> matches line
  feeds too). The replacement texts of the proxy contain no \<open>$\<close>.
\<close>

function replace_details :: "string \<Rightarrow> string \<Rightarrow> string" where
  "replace_details s repl =
     (case Index s ''<details'' of
        None \<Rightarrow> s
      | Some i \<Rightarrow>
          (case Index (drop (i + 8) s) ''>'' of
             None \<Rightarrow> s
           | Some j \<Rightarrow> take i s @ repl @ replace_details (drop (i + 8 + j + 1) s) repl))"
  by pat_completeness auto
termination
proof (relation "measure (\<lambda>(s, repl). length s)")
  show "wf (measure (\<lambda>(s, repl). length s))" by simp
next
  fix s repl :: string and i j :: nat
  assume "Index s ''<details'' = Some i"
  then have "i + 8 \<le> length s"
    using Index_le [of s "''<details''" i] by simp
  then show "((drop (i + 8 + j + 1) s, repl), (s, repl)) \<in> measure (\<lambda>(s, repl). length s)"
    by simp
qed

text \<open>
  \<open>regexp.MustCompile(sep).Split(s, -1)\<close> for a pattern that is a literal, non-empty
  text: the pieces between the occurrences of \<open>sep\<close>, the last piece included (also
  when it is empty).
\<close>

function Split :: "string \<Rightarrow> string \<Rightarrow> string list" where
  "Split s sep =
     (if sep = [] then [s]
      else (case Index s sep of
              None \<Rightarrow> [s]
            | Some i \<Rightarrow> take i s # Split (drop (i + length sep) s) sep))"
  by pat_completeness auto
termination
proof (relation "measure (\<lambda>(s, sep). length s)")
  show "wf (measure (\<lambda>(s, sep). length s))" by simp
next
  fix s sep :: string and i :: nat
  assume "sep \<noteq> []" and "Index s sep = Some i"
  then show "((drop (i + length sep) s, sep), (s, sep)) \<in> measure (\<lambda>(s, sep). length s)"
    using Index_le [of s sep i] by (cases sep) auto
qed

text \<open>
  \<open>bufio.Scanner\<close> with the default split function \<open>ScanLines\<close> and the default buffer:
  the lines of the input without their line feed and without one trailing carriage
  return; a last line without line feed is delivered when it is not empty. The buffer
  holds at most \<open>MaxScanTokenSize = 64 * 1024\<close> bytes, so when 65536 bytes hold no line
  feed, \<open>Scan\<close> gives up (\<open>ErrTooLong\<close>) and delivers nothing more.
\<close>

definition dropCR :: "string \<Rightarrow> string" where
  "dropCR line = (if line \<noteq> [] \<and> last line = CHR 0x0D then butlast line else line)"

function ScanLines :: "string \<Rightarrow> string list" where
  "ScanLines input =
     (if input = [] then []
      else (case Index input [CHR 0x0A] of
              None \<Rightarrow> (if 65536 \<le> length input then [] else [dropCR input])
            | Some i \<Rightarrow>
                (if 65536 \<le> i then []
                 else dropCR (take i input) # ScanLines (drop (i + 1) input))))"
  by pat_completeness auto
termination
  by (relation "measure length") auto

declare ReplaceAll.simps [simp del] TrimLeftSpace.simps [simp del]
  TrimRightSpace.simps [simp del] remove_summary.simps [simp del]
  replace_details.simps [simp del] Split.simps [simp del] ScanLines.simps [simp del]

section \<open>Configuration\<close>

text \<open>
  The package-level variables that \<open>init\<close> fills from the environment and that the
  request path reads. Go's \<open>int\<close> is \<open>int\<close> here; the durations computed from these
  values are reduced to 64 bits where the code computes them.
\<close>

record config =
  defaultKey :: string
  upstreamToken :: string
  performanceMode :: string
  maxRetries :: int
  retryDelay :: int
  requestTimeout :: int
  streamTimeout :: int
  randomDelayMin :: int
  randomDelayMax :: int
  streamBufferSize :: int
  disableConnectionCheck :: bool
  connectionCheckInterval :: int
  maxConcurrentConnections :: int
  anonTokenEnabled :: bool
  thinkTagsMode :: string

definition defaultModelName :: string where
  "defaultModelName = ''GLM-4.5''"

definition thinkingModelName :: string where
  "thinkingModelName = ''GLM-4.5-Thinking''"

definition searchModelName :: string where
  "searchModelName = ''GLM-4.5-Search''"

section \<open>The thinking transformer\<close>

definition transformThinking :: "config \<Rightarrow> string \<Rightarrow> string" where
  "transformThinking cfg s0 =
     (let s1 = remove_summary s0;
          s2 = ReplaceAll s1 ''</thinking>'' [];
          s3 = ReplaceAll s2 ''<Full>'' [];
          s4 = ReplaceAll s3 ''</Full>'' [];
          s5 = TrimSpace s4;
          s6 = (if thinkTagsMode cfg = ''think''
                then ReplaceAll (replace_details s5 ''<think>'') ''</details>'' ''</think>''
                else if thinkTagsMode cfg = ''strip''
                then ReplaceAll (replace_details s5 []) ''</details>'' []
                else s5);
          s7 = TrimPrefix s6 ''> '';
          s8 = ReplaceAll s7 [CHR 0x0A, CHR ''>'', CHR '' ''] [CHR 0x0A]
      in TrimSpace s8)"

section \<open>Data model\<close>

text \<open>
  The structs of the proxy. The fields \<open>ID\<close> and \<open>Created\<close> of \<open>OpenAIResponse\<close> hold the
  wall clock (\<open>time.Now().Unix()\<close>) and the field \<open>Temperature\<close> of \<open>OpenAIRequest\<close> is a
  floating point number that is only logged; the three are left out. A pointer that
  may be \<open>nil\<close> is an \<open>option\<close>.
\<close>

record ChatMessage =
  Role :: string
  Content :: string
  ReasoningContent :: string

record OpenAIRequest =
  Model :: string
  Messages :: "ChatMessage list"
  Stream :: "bool option"
  MaxTokens :: "int option"

record ModelItem =
  item_ID :: string
  item_Name :: string
  item_OwnedBy :: string

record UpstreamRequest =
  up_Stream :: bool
  up_Model :: string
  up_Messages :: "ChatMessage list"
  Params :: "(string \<times> string) list"
  Features :: "(string \<times> bool) list"
  BackgroundTasks :: "(string \<times> bool) list"
  ChatID :: string
  ID :: string
  MCPServers :: "string list"
  ModelItem :: ModelItem
  ToolServers :: "string list"
  Variables :: "(string \<times> string) list"

record Delta =
  delta_Role :: string
  delta_Content :: string
  delta_ReasoningContent :: string

record Choice =
  choice_Index :: int
  Message :: ChatMessage
  Delta :: Delta
  FinishReason :: string

record Usage =
  PromptTokens :: int
  CompletionTokens :: int
  TotalTokens :: int

record OpenAIResponse =
  Object :: string
  resp_Model :: string
  Choices :: "Choice list"
  Usage :: "Usage option"

record UpstreamError =
  Detail :: string
  Code :: int

record UpstreamInner =
  inner_Error :: "UpstreamError option"

record UpstreamDataData =
  DeltaContent :: string
  EditContent :: string
  Phase :: string
  Done :: bool
  data_Usage :: "Usage option"
  data_Error :: "UpstreamError option"
  Inner :: "UpstreamInner option"

record UpstreamData =
  Type :: string
  Data :: UpstreamDataData
  Error :: "UpstreamError option"

record ErrorResponse =
  err_Error :: string
  Details :: string
  RetryAfter :: int
  AvailableEndpoints :: int
  PerformanceMode :: string

text \<open>The zero values of the structs (what a Go composite literal leaves unset).\<close>

definition zero_ChatMessage :: ChatMessage where
  "zero_ChatMessage = \<lparr>Role = [], Content = [], ReasoningContent = []\<rparr>"

definition zero_Delta :: Delta where
  "zero_Delta = \<lparr>delta_Role = [], delta_Content = [], delta_ReasoningContent = []\<rparr>"

definition zero_ErrorResponse :: ErrorResponse where
  "zero_ErrorResponse =
     \<lparr>err_Error = [], Details = [], RetryAfter = 0, AvailableEndpoints = 0,
      PerformanceMode = []\<rparr>"

text \<open>
  \<open>json.Unmarshal\<close> is a parameter of the model: a function from the text to the
  decoded value, \<open>None\<close> when the library returns an error.
\<close>

type_synonym unmarshal_event = "string \<Rightarrow> UpstreamData option"

type_synonym unmarshal_request = "string \<Rightarrow> OpenAIRequest option"

section \<open>What the handler writes\<close>

text \<open>
  The response body of the streaming path is a sequence of frames: \<open>Chunk c\<close> is the
  write of \<open>data: \<close>, the JSON text of \<open>c\<close> and two line feeds (\<open>writeSSEChunk\<close>, and
  \<open>sendDataSafe\<close> in \<open>sendThinkContentSafe\<close>); \<open>DONE\<close> is the write of the line
  \<open>data: [DONE]\<close> and two line feeds. The JSON text of a chunk is one object without
  line feed, so the bytes of the terminal line occur in the body exactly where a
  \<open>DONE\<close> frame stands. Every write is recorded, also one to a client that has gone.
\<close>

datatype frame = Chunk OpenAIResponse | DONE

definition stream_chunk :: "Delta \<Rightarrow> string \<Rightarrow> OpenAIResponse" where
  "stream_chunk d finish =
     \<lparr>Object = ''chat.completion.chunk'', resp_Model = defaultModelName,
      Choices = [\<lparr>choice_Index = 0, Message = zero_ChatMessage, Delta = d,
                  FinishReason = finish\<rparr>],
      Usage = None\<rparr>"

text \<open>The chunks that the streaming path builds.\<close>

definition firstChunk :: OpenAIResponse where
  "firstChunk = stream_chunk (zero_Delta\<lparr>delta_Role := ''assistant''\<rparr>) []"

definition endChunk :: OpenAIResponse where
  "endChunk = stream_chunk zero_Delta ''stop''"

definition content_chunk :: "string \<Rightarrow> OpenAIResponse" where
  "content_chunk content = stream_chunk (zero_Delta\<lparr>delta_Content := content\<rparr>) []"

definition reasoning_chunk :: "string \<Rightarrow> OpenAIResponse" where
  "reasoning_chunk out = stream_chunk (zero_Delta\<lparr>delta_ReasoningContent := out\<rparr>) []"

section \<open>The streaming translator\<close>

text \<open>
  The variables that \<open>handleStreamResponse\<close> passes to \<open>processStreamLine\<close> by pointer,
  and the frames written to the client so far.
\<close>

record translator =
  isInThinkBlock :: bool
  bufferedThinkContent :: string
  streamClosed :: bool
  sentInitialAnswer :: bool
  written :: "frame list"

definition emit :: "frame \<Rightarrow> translator \<Rightarrow> translator" where
  "emit f t = t\<lparr>written := written t @ [f]\<rparr>"

definition sendThinkContentSafe :: "string \<Rightarrow> translator \<Rightarrow> translator" where
  "sendThinkContentSafe content t =
     emit (Chunk (content_chunk (''<think>'' @ content @ ''</think>''))) t"

definition has_error :: "UpstreamData \<Rightarrow> bool" where
  "has_error u =
     (Error u \<noteq> None \<or> data_Error (Data u) \<noteq> None \<or>
      (case Inner (Data u) of None \<Rightarrow> False | Some i \<Rightarrow> inner_Error i \<noteq> None))"

text \<open>The three stages of \<open>processStreamLine\<close> for an event without error.\<close>

definition initial_answer :: "UpstreamData \<Rightarrow> translator \<Rightarrow> translator" where
  "initial_answer u t =
     (if \<not> sentInitialAnswer t \<and> EditContent (Data u) \<noteq> [] \<and> Phase (Data u) = ''answer''
      then (case Split (EditContent (Data u)) ''</details>'' of
              p0 # content # rest \<Rightarrow>
                (if content \<noteq> []
                 then (emit (Chunk (content_chunk content)) t)\<lparr>sentInitialAnswer := True\<rparr>
                 else t)
            | _ \<Rightarrow> t)
      else t)"

definition delta_emission :: "config \<Rightarrow> UpstreamData \<Rightarrow> translator \<Rightarrow> translator" where
  "delta_emission cfg u t =
     (if DeltaContent (Data u) \<noteq> []
      then (if Phase (Data u) = ''thinking''
            then (let out = transformThinking cfg (DeltaContent (Data u))
                  in if out \<noteq> [] then emit (Chunk (reasoning_chunk out)) t else t)
            else emit (Chunk (content_chunk (DeltaContent (Data u)))) t)
      else t)"

definition done_detection :: "UpstreamData \<Rightarrow> translator \<Rightarrow> translator" where
  "done_detection u t =
     (if Done (Data u) \<or> Phase (Data u) = ''done''
      then (emit DONE (emit (Chunk endChunk) t))\<lparr>streamClosed := True\<rparr>
      else t)"

definition processStreamLine ::
  "config \<Rightarrow> unmarshal_event \<Rightarrow> string \<Rightarrow> translator \<Rightarrow> translator" where
  "processStreamLine cfg unmarshal line0 t =
     (let line = TrimSpace line0 in
      if HasPrefix line ''data: '' then
        (let jsonText = TrimSpace (drop 6 line) in
         if jsonText = ''[DONE]'' then
           (let t1 = (if isInThinkBlock t \<and> bufferedThinkContent t \<noteq> []
                      then sendThinkContentSafe (bufferedThinkContent t) t else t)
            in (emit DONE t1)\<lparr>streamClosed := True\<rparr>)
         else if jsonText \<noteq> [] then
           (case unmarshal jsonText of
              None \<Rightarrow> t
            | Some u \<Rightarrow>
                if has_error u
                then (emit DONE (emit (Chunk endChunk) t))\<lparr>streamClosed := True\<rparr>
                else done_detection u (delta_emission cfg u (initial_answer u t)))
         else t)
      else t)"

text \<open>
  The guard on the line buffer: above 1 MiB, everything up to the last line feed of
  the first half is dropped (when that line feed is not at position 0).
\<close>

definition guard_lineBuffer :: "string \<Rightarrow> string" where
  "guard_lineBuffer lineBuffer =
     (if 1024 * 1024 < length lineBuffer
      then (case LastIndex (take (length lineBuffer div 2) lineBuffer) [CHR 0x0A] of
              None \<Rightarrow> lineBuffer
            | Some idx \<Rightarrow> (if 0 < idx then drop (idx + 1) lineBuffer else lineBuffer))
      else lineBuffer)"

text \<open>
  The inner loop of \<open>handleStreamResponse\<close>: the complete lines of the buffer, one after
  the other, until the stream is closed. It returns the rest of the buffer.
\<close>

function process_lines ::
  "config \<Rightarrow> unmarshal_event \<Rightarrow> string \<Rightarrow> translator \<Rightarrow> string \<times> translator" where
  "process_lines cfg unmarshal lineBuffer t =
     (case Index lineBuffer [CHR 0x0A] of
        None \<Rightarrow> (lineBuffer, t)
      | Some lineEnd \<Rightarrow>
          (let line = take lineEnd lineBuffer;
               lineBuffer' = drop (lineEnd + 1) lineBuffer;
               t' = (if \<not> streamClosed t then processStreamLine cfg unmarshal line t else t)
           in if streamClosed t' then (lineBuffer', t')
              else process_lines cfg unmarshal lineBuffer' t'))"
  by pat_completeness auto
termination
proof (relation "measure (\<lambda>(cfg, unmarshal, lineBuffer, t). length lineBuffer)")
  show "wf (measure (\<lambda>(cfg, unmarshal, lineBuffer, t). length lineBuffer))" by simp
next
  fix cfg :: config and unmarshal :: unmarshal_event and lineBuffer line lineBuffer' :: string
    and t t' :: translator and lineEnd :: nat
  assume "Index lineBuffer [CHR 0x0A] = Some lineEnd"
    and "lineBuffer' = drop (lineEnd + 1) lineBuffer"
  then show "((cfg, unmarshal, lineBuffer', t'), (cfg, unmarshal, lineBuffer, t))
      \<in> measure (\<lambda>(cfg, unmarshal, lineBuffer, t). length lineBuffer)"
    using Index_le [of lineBuffer "[CHR 0x0A]" lineEnd] by simp
qed

declare process_lines.simps [simp del]

text \<open>
  One \<open>resp.Body.Read\<close> returns the bytes read and possibly an error. The body of the
  upstream response is the list of the results of its reads; a body whose list is
  used up reports \<open>io.EOF\<close> with no bytes, as a reader at its end does. The answer of
  \<open>isConnectionAlive\<close> at the check with a given counter value is a function of the
  environment.
\<close>

datatype read_error = EOF | ReadFailed

type_synonym body_read = "string \<times> read_error option"

text \<open>A Go function returns or panics; what it had done up to the panic stays done.\<close>

datatype 'a outcome = Returned 'a | Panicked 'a

definition at_eof :: "config \<Rightarrow> unmarshal_event \<Rightarrow> string \<Rightarrow> translator \<Rightarrow> translator" where
  "at_eof cfg unmarshal lineBuffer t =
     (if lineBuffer \<noteq> [] \<and> \<not> streamClosed t
      then processStreamLine cfg unmarshal lineBuffer t else t)"

text \<open>
  The read loop. Its counter is incremented and the client probed before each read
  when the check is enabled; the remainder by an interval of zero panics. Go's \<open>%\<close>
  truncates, as \<open>smod\<close> does.
\<close>

fun read_loop ::
  "config \<Rightarrow> unmarshal_event \<Rightarrow> (int \<Rightarrow> bool) \<Rightarrow> body_read list \<Rightarrow> string \<Rightarrow> int \<Rightarrow>
   translator \<Rightarrow> translator outcome" where
  "read_loop cfg unmarshal alive reads lineBuffer checkCounter t =
     (if streamClosed t then Returned t
      else
        (let checkCounter' =
               (if \<not> disableConnectionCheck cfg then checkCounter + 1 else checkCounter)
         in if \<not> disableConnectionCheck cfg \<and> connectionCheckInterval cfg = 0
            then Panicked t
            else if \<not> disableConnectionCheck cfg \<and>
                    checkCounter' smod connectionCheckInterval cfg = 0 \<and>
                    \<not> alive checkCounter'
            then Returned t
            else (case reads of
                    [] \<Rightarrow> Returned (at_eof cfg unmarshal lineBuffer t)
                  | (chunk, err) # rest \<Rightarrow>
                      (let (lineBuffer', t') =
                             (if chunk \<noteq> []
                              then process_lines cfg unmarshal
                                     (guard_lineBuffer (lineBuffer @ chunk)) t
                              else (lineBuffer, t))
                       in (case err of
                             Some EOF \<Rightarrow> Returned (at_eof cfg unmarshal lineBuffer' t')
                           | Some ReadFailed \<Rightarrow> Returned t'
                           | None \<Rightarrow>
                               read_loop cfg unmarshal alive rest lineBuffer' checkCounter' t')))))"

declare read_loop.simps [simp del]

text \<open>
  What a request meets after the upstream has answered with status 200: whether the
  response writer is an \<open>http.Flusher\<close>, the reads of the upstream body and the state
  of the client connection.
\<close>

record stream_env =
  flusher_ok :: bool
  body_reads :: "body_read list"
  client_alive :: "int \<Rightarrow> bool"

datatype response_body =
  Error_text string
  | Error_json ErrorResponse
  | Completion OpenAIResponse
  | Event_stream "frame list"

record response =
  StatusCode :: nat
  Body :: response_body
  Aborted :: bool

definition initial_translator :: translator where
  "initial_translator =
     \<lparr>isInThinkBlock = False, bufferedThinkContent = [], streamClosed = False,
      sentInitialAnswer = False, written = []\<rparr>"

text \<open>The last statement of \<open>handleStreamResponse\<close>, after the read loop.\<close>

definition final_think_flush :: "translator \<Rightarrow> translator" where
  "final_think_flush t =
     (if isInThinkBlock t \<and> bufferedThinkContent t \<noteq> []
      then sendThinkContentSafe (bufferedThinkContent t) t else t)"

text \<open>
  \<open>handleStreamResponse\<close> up to its result for the translator: the opener is written,
  the read buffer is made (\<open>make\<close> panics on a negative size), the loop runs and the
  buffered thinking content is flushed.
\<close>

definition translate_stream ::
  "config \<Rightarrow> unmarshal_event \<Rightarrow> stream_env \<Rightarrow> translator outcome" where
  "translate_stream cfg unmarshal env =
     (let t0 = emit (Chunk firstChunk) initial_translator in
      if streamBufferSize cfg < 0 then Panicked t0
      else (case read_loop cfg unmarshal (client_alive env) (body_reads env) [] 0 t0 of
              Panicked t \<Rightarrow> Panicked t
            | Returned t \<Rightarrow> Returned (final_think_flush t)))"

definition handleStreamResponse :: "config \<Rightarrow> unmarshal_event \<Rightarrow> stream_env \<Rightarrow> response" where
  "handleStreamResponse cfg unmarshal env =
     (if \<not> flusher_ok env
      then \<lparr>StatusCode = 500, Body = Error_text ''Streaming unsupported'', Aborted = False\<rparr>
      else (case translate_stream cfg unmarshal env of
              Returned t \<Rightarrow>
                \<lparr>StatusCode = 200, Body = Event_stream (written t), Aborted = False\<rparr>
            | Panicked t \<Rightarrow>
                \<lparr>StatusCode = 200, Body = Event_stream (written t), Aborted = True\<rparr>))"

section \<open>The aggregator\<close>

text \<open>The loop of \<open>handleNonStreamResponse\<close> over the scanned lines.\<close>

fun collect_content :: "config \<Rightarrow> unmarshal_event \<Rightarrow> string list \<Rightarrow> string \<Rightarrow> string" where
  "collect_content cfg unmarshal [] fullContent = fullContent"
| "collect_content cfg unmarshal (line # lines) fullContent =
     (if \<not> HasPrefix line ''data: '' then collect_content cfg unmarshal lines fullContent
      else
        (let dataStr = TrimPrefix line ''data: '' in
         if dataStr = [] \<or> dataStr = ''[DONE]''
         then collect_content cfg unmarshal lines fullContent
         else (case unmarshal dataStr of
                 None \<Rightarrow> collect_content cfg unmarshal lines fullContent
               | Some u \<Rightarrow>
                   (let fullContent' =
                          (if DeltaContent (Data u) \<noteq> []
                           then (let out = (if Phase (Data u) = ''thinking''
                                            then transformThinking cfg (DeltaContent (Data u))
                                            else DeltaContent (Data u))
                                 in if out \<noteq> [] then fullContent @ out else fullContent)
                           else fullContent)
                    in if Done (Data u) \<or> Phase (Data u) = ''done'' then fullContent'
                       else collect_content cfg unmarshal lines fullContent'))))"

text \<open>
  The body of the upstream response is given here by its bytes: the scanner delivers
  the same lines however the reads cut them, and a read error ends the input as the
  end of the body does.
\<close>

definition completion :: "string \<Rightarrow> OpenAIResponse" where
  "completion finalContent =
     \<lparr>Object = ''chat.completion'', resp_Model = defaultModelName,
      Choices = [\<lparr>choice_Index = 0,
                  Message = \<lparr>Role = ''assistant'', Content = finalContent,
                             ReasoningContent = []\<rparr>,
                  Delta = zero_Delta, FinishReason = ''stop''\<rparr>],
      Usage = Some \<lparr>PromptTokens = 0, CompletionTokens = 0, TotalTokens = 0\<rparr>\<rparr>"

definition handleNonStreamResponse :: "config \<Rightarrow> unmarshal_event \<Rightarrow> string \<Rightarrow> response" where
  "handleNonStreamResponse cfg unmarshal upstream_bytes =
     \<lparr>StatusCode = 200,
      Body = Completion (completion (collect_content cfg unmarshal (ScanLines upstream_bytes) [])),
      Aborted = False\<rparr>"

section \<open>The upstream dispatcher\<close>

text \<open>
  A \<open>time.Duration\<close> is a 64-bit count of nanoseconds; \<open>int64\<close> reduces an integer to
  that range the way Go's arithmetic wraps.
\<close>

definition int64 :: "int \<Rightarrow> int" where
  "int64 x = sint (word_of_int x :: 64 word)"

text \<open>
  \<open>int(math.Pow(2, float64(i)))\<close>: the power is exact in floating point; from \<open>2^63\<close>
  on it lies outside the integers of 64 bits, where the conversion gives the least
  integer on amd64.
\<close>

definition pow2_int :: "nat \<Rightarrow> int" where
  "pow2_int i = (if i < 63 then 2 ^ i else - (2 ^ 63))"

definition Millisecond :: int where
  "Millisecond = 1000000"

definition backoff_duration :: "config \<Rightarrow> nat \<Rightarrow> int" where
  "backoff_duration cfg i = int64 (int64 (retryDelay cfg * pow2_int i) * Millisecond)"

text \<open>
  The wait after status 429 or 403 is computed in floating point; the model is exact
  for a \<open>retryDelay\<close> from \<open>0\<close> up to \<open>2^53\<close>.
\<close>

definition wait_duration :: "config \<Rightarrow> nat \<Rightarrow> int" where
  "wait_duration cfg i = int64 (min (retryDelay cfg * 2 ^ i) 10000 * Millisecond)"

text \<open>What the dispatcher does that takes time or reaches the upstream, in order.\<close>

datatype retry_event = Backoff int | Jitter int | Post nat | RateLimitWait int

text \<open>
  \<open>randomDelay\<close>. \<open>mathrand.Intn(n)\<close> panics when \<open>n \<le> 0\<close> and returns a number from \<open>0\<close>
  up to \<open>n - 1\<close> otherwise: the random source gives a number \<open>r\<close>, and \<open>r mod n\<close> is the
  result. \<open>None\<close> is the panic.
\<close>

definition randomDelay :: "config \<Rightarrow> int \<Rightarrow> retry_event list option" where
  "randomDelay cfg r =
     (if randomDelayMax cfg > randomDelayMin cfg
      then (let n = int64 (randomDelayMax cfg - randomDelayMin cfg) in
            if n \<le> 0 then None
            else (let delay = int64 (r mod n + randomDelayMin cfg)
                  in Some [Jitter (int64 (delay * Millisecond))]))
      else Some [])"

datatype attempt_result = Transport_error | Status nat

datatype dispatch_error =
  Context_done | Request_failed | Transport_failed | Http_status nat | All_retries_failed

text \<open>
  What the dispatcher meets: whether \<open>http.NewRequestWithContext\<close> accepts the
  configured URL, the random source at each iteration, the result of \<open>client.Do\<close> at
  each iteration, whether the context is done before the timer of the backoff or of
  the wait of an iteration fires, and the text of an error.
\<close>

record dispatch_env =
  new_request_ok :: bool
  random_source :: "nat \<Rightarrow> int"
  attempt :: "nat \<Rightarrow> attempt_result"
  ctx_done_in_backoff :: "nat \<Rightarrow> bool"
  ctx_done_in_wait :: "nat \<Rightarrow> bool"
  error_text :: "dispatch_error \<Rightarrow> string"

datatype dispatch_result = Success nat | Failure dispatch_error | Panic

definition after :: "retry_event list \<Rightarrow> dispatch_result \<times> retry_event list \<Rightarrow>
    dispatch_result \<times> retry_event list" where
  "after evs r = (fst r, evs @ snd r)"

text \<open>
  The loop of \<open>requestWithRetry\<close>: the first argument counts the iterations left, \<open>i\<close>
  is the loop variable.
\<close>

fun retry_loop ::
  "config \<Rightarrow> dispatch_env \<Rightarrow> nat \<Rightarrow> nat \<Rightarrow> dispatch_error option \<Rightarrow>
   dispatch_result \<times> retry_event list" where
  "retry_loop cfg env 0 i lastErr =
     (Failure (case lastErr of None \<Rightarrow> All_retries_failed | Some e \<Rightarrow> e), [])"
| "retry_loop cfg env (Suc n) i lastErr =
     (if 0 < i \<and> ctx_done_in_backoff env i then (Failure Context_done, [])
      else
        (let backoff = (if 0 < i then [Backoff (backoff_duration cfg i)] else []) in
         case randomDelay cfg (random_source env i) of
           None \<Rightarrow> (Panic, backoff)
         | Some jitter \<Rightarrow>
             (if \<not> new_request_ok env
              then after (backoff @ jitter)
                     (retry_loop cfg env n (Suc i) (Some Request_failed))
              else (case attempt env i of
                      Transport_error \<Rightarrow>
                        after (backoff @ jitter @ [Post i])
                          (retry_loop cfg env n (Suc i) (Some Transport_failed))
                    | Status code \<Rightarrow>
                        if code = 200 then (Success i, backoff @ jitter @ [Post i])
                        else if code = 429 \<or> code = 403 then
                          (if ctx_done_in_wait env i
                           then (Failure Context_done, backoff @ jitter @ [Post i])
                           else after (backoff @ jitter @
                                         [Post i, RateLimitWait (wait_duration cfg i)])
                                  (retry_loop cfg env n (Suc i) lastErr))
                        else after (backoff @ jitter @ [Post i])
                               (retry_loop cfg env n (Suc i) (Some (Http_status code)))))))"

definition requestWithRetry ::
  "config \<Rightarrow> dispatch_env \<Rightarrow> dispatch_result \<times> retry_event list" where
  "requestWithRetry cfg env = retry_loop cfg env (nat (maxRetries cfg)) 0 None"

section \<open>The request orchestrator\<close>

text \<open>The counters that \<open>chatHandler\<close> updates with \<open>atomic.AddInt64\<close>.\<close>

record counters =
  requestCount :: "64 word"
  totalResponseTime :: "64 word"
  errorCount :: "64 word"

text \<open>The upstream request that \<open>chatHandler\<close> builds from the client's request.\<close>

definition upstream_request ::
  "OpenAIRequest \<Rightarrow> string \<Rightarrow> string \<Rightarrow> string \<Rightarrow> UpstreamRequest" where
  "upstream_request chatReq chatID msgID now =
     (let (isThinking, isSearch, searchMcp) =
            (if Model chatReq = thinkingModelName then (True, False, [])
             else if Model chatReq = searchModelName then (True, True, ''deep-web-search'')
             else (False, False, []))
      in \<lparr>up_Stream = True,
          up_Model = ''0727-360B-API'',
          up_Messages = Messages chatReq,
          Params = [],
          Features = [(''enable_thinking'', isThinking), (''web_search'', isSearch),
                      (''auto_web_search'', isSearch)],
          BackgroundTasks = [(''title_generation'', False), (''tags_generation'', False)],
          ChatID = chatID,
          ID = msgID,
          MCPServers = [searchMcp],
          ModelItem = \<lparr>item_ID = ''0727-360B-API'', item_Name = ''GLM-4.5'',
                        item_OwnedBy = ''openai''\<rparr>,
          ToolServers = [],
          Variables = [(''{{USER_NAME}}'', ''User''), (''{{USER_LOCATION}}'', ''Unknown''),
                       (''{{CURRENT_DATETIME}}'', now)]\<rparr>)"

text \<open>
  What one request meets: the result of reading its body (\<open>None\<close> when \<open>io.ReadAll\<close>
  fails), its \<open>Authorization\<close> header, the identifiers and the date made from the
  clock, the result of \<open>getAnonymousToken\<close> (\<open>None\<close> when it fails), the dispatcher's
  environment, the upstream response, and the milliseconds that
  \<open>time.Since(startTime)\<close> gives where the handler takes the response time.
\<close>

record request_env =
  read_body :: "string option"
  Authorization :: string
  chat_id :: string
  msg_id :: string
  current_datetime :: string
  anonymous_token :: "string option"
  dispatch :: dispatch_env
  upstream :: stream_env
  elapsed_ms :: "64 word"

text \<open>The bytes that the reads of a body deliver up to its end or its first error.\<close>

fun delivered_bytes :: "body_read list \<Rightarrow> string" where
  "delivered_bytes [] = []"
| "delivered_bytes ((chunk, err) # rest) =
     chunk @ (case err of None \<Rightarrow> delivered_bytes rest | Some e \<Rightarrow> [])"

text \<open>
  The result of \<open>chatHandler\<close>: the response, the counters, and the upstream request
  with the token it was sent with (when the handler got as far as the dispatcher).
\<close>

record handled =
  the_response :: response
  the_counters :: counters
  dispatched :: "(UpstreamRequest \<times> string) option"

definition error_response :: "nat \<Rightarrow> response_body \<Rightarrow> response" where
  "error_response code b = \<lparr>StatusCode = code, Body = b, Aborted = False\<rparr>"

text \<open>The body that \<open>http.Error\<close> sends when the request body cannot be read.\<close>

definition read_body_failed :: string where
  \<open>read_body_failed = ''{"error": "Failed to read request body"}''\<close>

text \<open>A handler that panics before it writes leaves no response: the server drops the connection.\<close>

definition no_response :: response where
  "no_response = \<lparr>StatusCode = 0, Body = Error_text [], Aborted = True\<rparr>"

definition chatHandler ::
  "config \<Rightarrow> unmarshal_request \<Rightarrow> unmarshal_event \<Rightarrow> request_env \<Rightarrow> counters \<Rightarrow> handled" where
  "chatHandler cfg unmarshal_req unmarshal env c0 =
     (let c = c0\<lparr>requestCount := requestCount c0 + 1\<rparr> in
      case read_body env of
        None \<Rightarrow>
          \<lparr>the_response =
             error_response 400 (Error_text read_body_failed),
           the_counters = c\<lparr>errorCount := errorCount c + 1\<rparr>,
           dispatched = None\<rparr>
      | Some body \<Rightarrow>
          (let key = TrimSpace (TrimPrefix (Authorization env) ''Bearer '') in
           if key \<noteq> defaultKey cfg then
             \<lparr>the_response =
                error_response 401
                  (Error_json (zero_ErrorResponse\<lparr>err_Error := ''Unauthorized''\<rparr>)),
              the_counters = c\<lparr>errorCount := errorCount c + 1\<rparr>,
              dispatched = None\<rparr>
           else
             (case unmarshal_req body of
                None \<Rightarrow>
                  \<lparr>the_response =
                     error_response 400
                       (Error_json (zero_ErrorResponse\<lparr>err_Error := ''Invalid JSON format''\<rparr>)),
                   the_counters = c\<lparr>errorCount := errorCount c + 1\<rparr>,
                   dispatched = None\<rparr>
              | Some chatReq \<Rightarrow>
                  (let upstreamReq =
                         upstream_request chatReq (chat_id env) (msg_id env)
                           (current_datetime env);
                       authToken =
                         (if anonTokenEnabled cfg
                          then (case anonymous_token env of
                                  Some t \<Rightarrow> t | None \<Rightarrow> upstreamToken cfg)
                          else upstreamToken cfg);
                       isStream = (Stream chatReq = Some True)
                   in case fst (requestWithRetry cfg (dispatch env)) of
                        Failure err \<Rightarrow>
                          \<lparr>the_response =
                             error_response 502
                               (Error_json
                                  \<lparr>err_Error = ''External API request failed'',
                                   Details = error_text (dispatch env) err,
                                   RetryAfter = 60, AvailableEndpoints = 0,
                                   PerformanceMode = performanceMode cfg\<rparr>),
                           the_counters =
                             c\<lparr>errorCount := errorCount c + 1,
                               totalResponseTime := totalResponseTime c + elapsed_ms env\<rparr>,
                           dispatched = Some (upstreamReq, authToken)\<rparr>
                      | Panic \<Rightarrow>
                          \<lparr>the_response = no_response, the_counters = c,
                           dispatched = Some (upstreamReq, authToken)\<rparr>
                      | Success i \<Rightarrow>
                          if \<not> isStream then
                            \<lparr>the_response =
                               handleNonStreamResponse cfg unmarshal
                                 (delivered_bytes (body_reads (upstream env))),
                             the_counters =
                               c\<lparr>totalResponseTime := totalResponseTime c + elapsed_ms env\<rparr>,
                             dispatched = Some (upstreamReq, authToken)\<rparr>
                          else
                            \<lparr>the_response = handleStreamResponse cfg unmarshal (upstream env),
                             the_counters = c,
                             dispatched = Some (upstreamReq, authToken)\<rparr>))))"

section \<open>The admission gate\<close>

text \<open>
  \<open>concurrencyControlMiddleware\<close> runs once per request, and the requests run side by
  side. Each request goes through the operations of the middleware on the shared
  state one at a time: the send to the channel \<open>connectionSemaphore\<close> in a \<open>select\<close>
  with \<open>default\<close> (it succeeds when the channel holds fewer elements than its
  capacity), the atomic increment of \<open>currentConnections\<close>, the handler, and the
  deferred function, which first receives from the channel and then decrements
  \<open>currentConnections\<close>. A schedule names, step by step, the request that performs
  its next operation.
\<close>

datatype position = Arrived | Acquired | Serving | Released | Left | Rejected

record server =
  semaphore :: nat
  currentConnections :: int
  requests :: "position list"

definition step :: "config \<Rightarrow> nat \<Rightarrow> server \<Rightarrow> server" where
  "step cfg i s =
     (if length (requests s) \<le> i then s
      else (case requests s ! i of
              Arrived \<Rightarrow>
                (if int (semaphore s) < maxConcurrentConnections cfg
                 then s\<lparr>semaphore := semaphore s + 1, requests := (requests s)[i := Acquired]\<rparr>
                 else s\<lparr>requests := (requests s)[i := Rejected]\<rparr>)
            | Acquired \<Rightarrow>
                s\<lparr>currentConnections := currentConnections s + 1,
                  requests := (requests s)[i := Serving]\<rparr>
            | Serving \<Rightarrow>
                s\<lparr>semaphore := semaphore s - 1, requests := (requests s)[i := Released]\<rparr>
            | Released \<Rightarrow>
                s\<lparr>currentConnections := currentConnections s - 1,
                  requests := (requests s)[i := Left]\<rparr>
            | Left \<Rightarrow> s
            | Rejected \<Rightarrow> s))"

fun run :: "config \<Rightarrow> nat list \<Rightarrow> server \<Rightarrow> server" where
  "run cfg [] s = s"
| "run cfg (i # schedule) s = run cfg schedule (step cfg i s)"

definition idle_server :: "nat \<Rightarrow> server" where
  "idle_server n = \<lparr>semaphore = 0, currentConnections = 0, requests = replicate n Arrived\<rparr>"


section \<open>Sample inputs\<close>

text \<open>
  A configuration (the defaults of the mode \<open>balanced\<close>) and inputs on which the
  definitions are evaluated. \<open>sample_unmarshal\<close> decodes the event texts used below as
  \<open>json.Unmarshal\<close> does and rejects every other text.
\<close>

definition sample_config :: config where
  "sample_config =
     \<lparr>defaultKey = ''123456'', upstreamToken = ''token'', performanceMode = ''balanced'',
      maxRetries = 3, retryDelay = 1000, requestTimeout = 120000, streamTimeout = 300000,
      randomDelayMin = 100, randomDelayMax = 500, streamBufferSize = 16384,
      disableConnectionCheck = False, connectionCheckInterval = 20,
      maxConcurrentConnections = 1000, anonTokenEnabled = True, thinkTagsMode = ''think''\<rparr>"

definition event :: "string \<Rightarrow> string \<Rightarrow> bool \<Rightarrow> UpstreamData" where
  "event phase delta done =
     \<lparr>Type = [],
      Data = \<lparr>DeltaContent = delta, EditContent = [], Phase = phase, Done = done,
              data_Usage = None, data_Error = None, Inner = None\<rparr>,
      Error = None\<rparr>"

definition json_answer_Hel :: string where
  \<open>json_answer_Hel = ''{"data":{"phase":"answer","delta_content":"Hel"}}''\<close>

definition json_answer_lo :: string where
  \<open>json_answer_lo = ''{"data":{"phase":"answer","delta_content":"lo"}}''\<close>

definition json_thinking :: string where
  \<open>json_thinking =
     ''{"data":{"phase":"thinking","delta_content":"<details open>reasoning</details>"}}''\<close>

definition json_done :: string where
  \<open>json_done = ''{"data":{"phase":"done","done":true}}''\<close>

definition json_error_with_delta :: string where
  \<open>json_error_with_delta =
     ''{"error":{"detail":"busy","code":500},"data":{"phase":"answer","delta_content":"Hel"}}''\<close>

definition sample_unmarshal :: unmarshal_event where
  "sample_unmarshal text =
     (if text = json_answer_Hel then Some (event ''answer'' ''Hel'' False)
      else if text = json_answer_lo then Some (event ''answer'' ''lo'' False)
      else if text = json_thinking
      then Some (event ''thinking'' ''<details open>reasoning</details>'' False)
      else if text = json_done then Some (event ''done'' [] True)
      else if text = json_error_with_delta
      then Some ((event ''answer'' ''Hel'' False)\<lparr>Error := Some \<lparr>Detail = ''busy'', Code = 500\<rparr>\<rparr>)
      else None)"

text \<open>A line of the upstream body that carries a text, without and with its line feed.\<close>

definition data_line :: "string \<Rightarrow> string" where
  "data_line payload = ''data: '' @ payload"

definition sse_line :: "string \<Rightarrow> string" where
  "sse_line payload = data_line payload @ [CHR 0x0A]"

definition sample_dispatch :: dispatch_env where
  "sample_dispatch =
     \<lparr>new_request_ok = True, random_source = (\<lambda>i. 7), attempt = (\<lambda>i. Status 200),
      ctx_done_in_backoff = (\<lambda>i. False), ctx_done_in_wait = (\<lambda>i. False),
      error_text = (\<lambda>e. ''error'')\<rparr>"

definition sample_upstream :: "body_read list \<Rightarrow> stream_env" where
  "sample_upstream reads =
     \<lparr>flusher_ok = True, body_reads = reads, client_alive = (\<lambda>n. True)\<rparr>"

definition json_request :: "string \<Rightarrow> bool \<Rightarrow> OpenAIRequest" where
  "json_request model stream =
     \<lparr>Model = model,
      Messages = [\<lparr>Role = ''user'', Content = ''hi'', ReasoningContent = []\<rparr>],
      Stream = Some stream, MaxTokens = None\<rparr>"

definition sample_unmarshal_request :: unmarshal_request where
  "sample_unmarshal_request text =
     (if text = ''stream'' then Some (json_request ''GLM-4.5'' True)
      else if text = ''plain'' then Some (json_request ''GLM-4.5'' False)
      else if text = ''search'' then Some (json_request ''GLM-4.5-Search'' False)
      else None)"

definition sample_request :: "string \<Rightarrow> string \<Rightarrow> body_read list \<Rightarrow> request_env" where
  "sample_request body auth reads =
     \<lparr>read_body = Some body, Authorization = auth, chat_id = ''1-1'', msg_id = ''1'',
      current_datetime = ''2025-01-03 00:00:00'', anonymous_token = None,
      dispatch = sample_dispatch, upstream = sample_upstream reads, elapsed_ms = 1500\<rparr>"

definition zero_counters :: counters where
  "zero_counters = \<lparr>requestCount = 0, totalResponseTime = 0, errorCount = 0\<rparr>"


section \<open>Notions used in the statements\<close>

text \<open>The translator at the end of the read loop, whether it returned or panicked.\<close>

definition final :: "'a outcome \<Rightarrow> 'a" where
  "final r = (case r of Returned t \<Rightarrow> t | Panicked t \<Rightarrow> t)"


text \<open>
  The conditions under which the read loop neither panics nor stops for a client that
  has gone: the check is disabled, or its interval is not zero and the client stays.
\<close>

definition client_stays :: "config \<Rightarrow> (int \<Rightarrow> bool) \<Rightarrow> bool" where
  "client_stays cfg alive =
     (disableConnectionCheck cfg \<or> (connectionCheckInterval cfg \<noteq> 0 \<and> (\<forall>n. alive n)))"

text \<open>The first bytes and the last bytes of the white space runes.\<close>

definition space_first_bytes :: string where
  "space_first_bytes = remdups (map hd space_runes)"

definition space_last_bytes :: string where
  "space_last_bytes = remdups (map last space_runes)"

text \<open>A line that carries the text of a JSON object.\<close>

definition json_object :: "string \<Rightarrow> bool" where
  "json_object js =
     (2 \<le> length js \<and> hd js = CHR ''{'' \<and> last js = CHR ''}'' \<and> CHR 0x0A \<notin> set js)"

text \<open>
  An event of the answer phase that carries the delta \<open>d\<close> and nothing else, and an
  event that only signals the end.
\<close>

definition answer_delta :: "UpstreamData \<Rightarrow> string \<Rightarrow> bool" where
  "answer_delta u d =
     (Phase (Data u) = ''answer'' \<and> DeltaContent (Data u) = d \<and> EditContent (Data u) = [] \<and>
      \<not> Done (Data u) \<and> \<not> has_error u)"

definition done_signal :: "UpstreamData \<Rightarrow> bool" where
  "done_signal u =
     ((Done (Data u) \<or> Phase (Data u) = ''done'') \<and> DeltaContent (Data u) = [] \<and>
      EditContent (Data u) = [] \<and> \<not> has_error u)"

definition answer_frames :: "string list \<Rightarrow> frame list" where
  "answer_frames ds = map (\<lambda>d. Chunk (content_chunk d)) (filter (\<lambda>d. d \<noteq> []) ds)"

text \<open>What a client reads as \<open>choices[0].delta.content\<close> over the frames of a stream.\<close>

definition chunk_content :: "OpenAIResponse \<Rightarrow> string" where
  "chunk_content c = (case Choices c of [] \<Rightarrow> [] | ch # rest \<Rightarrow> delta_Content (Delta ch))"

fun frame_content :: "frame \<Rightarrow> string" where
  "frame_content (Chunk c) = chunk_content c"
| "frame_content DONE = []"

definition stream_content :: "frame list \<Rightarrow> string" where
  "stream_content fs = concat (map frame_content fs)"

text \<open>What a client reads as \<open>choices[0].message.content\<close> in a response.\<close>

definition message_content :: "response \<Rightarrow> string option" where
  "message_content r =
     (case Body r of
        Completion c \<Rightarrow>
          (case Choices c of [] \<Rightarrow> None | ch # rest \<Rightarrow> Some (Content (Message ch)))
      | _ \<Rightarrow> None)"

text \<open>
  A sample upstream body, two answer events and a done event, delivered in two reads.
\<close>

definition sample_events :: "(string \<times> string) list" where
  "sample_events = [(json_answer_Hel, ''Hel''), (json_answer_lo, ''lo'')]"

definition sample_reads :: "body_read list" where
  "sample_reads =
     [(sse_line json_answer_Hel, None),
      (sse_line json_answer_lo @ sse_line json_done, Some EOF)]"

text \<open>An answer event whose delta has 65536 bytes, and a decoder for its text.\<close>

definition long_delta :: string where
  "long_delta = replicate 65536 (CHR ''a'')"

definition json_long_answer :: string where
  \<open>json_long_answer = ''{"data":{"phase":"answer","delta_content":"'' @ long_delta @ ''"}}''\<close>

definition long_unmarshal :: unmarshal_event where
  "long_unmarshal js =
     (if js = json_long_answer then Some (event ''answer'' long_delta False) else None)"


text \<open>
  The events of a run between the previous request to the upstream and the request of
  iteration \<open>i\<close>: all that the dispatcher waits for before that attempt.
\<close>

fun pauses_before :: "nat \<Rightarrow> retry_event list \<Rightarrow> retry_event list \<Rightarrow> retry_event list option" where
  "pauses_before i acc [] = None"
| "pauses_before i acc (Post j # evs) =
     (if j = i then Some acc else pauses_before i [] evs)"
| "pauses_before i acc (e # evs) = pauses_before i (acc @ [e]) evs"

text \<open>The pauses at the start of iteration \<open>i\<close>, and the wait at its end.\<close>

definition backoff_of :: "config \<Rightarrow> nat \<Rightarrow> retry_event list" where
  "backoff_of cfg i = (if 0 < i then [Backoff (backoff_duration cfg i)] else [])"

definition jitter_of :: "config \<Rightarrow> dispatch_env \<Rightarrow> nat \<Rightarrow> retry_event list" where
  "jitter_of cfg env i = (case randomDelay cfg (random_source env i) of None \<Rightarrow> [] | Some j \<Rightarrow> j)"

definition wait_of :: "config \<Rightarrow> dispatch_env \<Rightarrow> nat \<Rightarrow> retry_event list" where
  "wait_of cfg env i =
     (case attempt env i of
        Status code \<Rightarrow>
          (if code = 429 \<or> code = 403 then [RateLimitWait (wait_duration cfg i)] else [])
      | Transport_error \<Rightarrow> [])"

text \<open>The events of one iteration of the loop, followed by those of the next ones.\<close>

definition next_events ::
  "config \<Rightarrow> dispatch_env \<Rightarrow> nat \<Rightarrow> nat \<Rightarrow> dispatch_error option \<Rightarrow> retry_event list" where
  "next_events cfg env n k lastErr =
     (case attempt env k of
        Transport_error \<Rightarrow> snd (retry_loop cfg env n (Suc k) (Some Transport_failed))
      | Status code \<Rightarrow>
          if code = 200 then []
          else if code = 429 \<or> code = 403
          then (if ctx_done_in_wait env k then []
                else RateLimitWait (wait_duration cfg k) #
                     snd (retry_loop cfg env n (Suc k) lastErr))
          else snd (retry_loop cfg env n (Suc k) (Some (Http_status code))))"

text \<open>An upstream that answers the first two attempts with status 429.\<close>

definition limited_dispatch :: dispatch_env where
  "limited_dispatch = sample_dispatch\<lparr>attempt := (\<lambda>i. if i < 2 then Status 429 else Status 200)\<rparr>"


definition body_lines :: "string \<Rightarrow> string list" where
  "body_lines body = Split body [CHR 0x0A]"

text \<open>
  A line that closes the stream: a \<open>data:\<close> line whose payload is \<open>[DONE]\<close>, or decodes
  to an event with an error, with the done flag or of the phase \<open>done\<close>.
\<close>

definition closing_line :: "unmarshal_event \<Rightarrow> string \<Rightarrow> bool" where
  "closing_line unmarshal line0 =
     (let line = TrimSpace line0; jsonText = TrimSpace (drop 6 line) in
      HasPrefix line ''data: '' \<and>
      (jsonText = ''[DONE]'' \<or>
       (jsonText \<noteq> [] \<and>
        (case unmarshal jsonText of
           None \<Rightarrow> False
         | Some u \<Rightarrow> has_error u \<or> Done (Data u) \<or> Phase (Data u) = ''done''))))"

text \<open>A read of more than 1 MiB: the line \<open>data: [DONE]\<close> and 1048576 further bytes.\<close>

definition padding :: string where
  "padding = replicate 1048576 (CHR ''a'')"

definition oversized_read :: string where
  "oversized_read = sse_line ''[DONE]'' @ padding"


section \<open>The upstream request\<close>

lemma upstream_request_MCPServers:
  "MCPServers (upstream_request chatReq chatID msgID now) =
     (if Model chatReq = searchModelName then [''deep-web-search''] else [[]])"
  by (simp add: upstream_request_def thinkingModelName_def searchModelName_def)

lemma chatHandler_dispatched:
  assumes "dispatched (chatHandler cfg unmarshal_req unmarshal env c) = Some (u, tok)"
  shows "\<exists>body chatReq. read_body env = Some body \<and> unmarshal_req body = Some chatReq \<and>
           u = upstream_request chatReq (chat_id env) (msg_id env) (current_datetime env)"
  using assms
  by (auto simp: chatHandler_def Let_def split: option.splits if_splits dispatch_result.splits)

text \<open>
  C10. Whenever \<open>chatHandler\<close> gets as far as the dispatcher, the upstream request it
  has built for the decoded client request carries a list \<open>mcp_servers\<close> of exactly one
  element: the text \<open>deep-web-search\<close> when the model of the request is the search
  model, and the empty text (not an empty list) for every other model.
\<close>

theorem mcp_servers_single_element:
  assumes "dispatched (chatHandler cfg unmarshal_req unmarshal env c) = Some (u, tok)"
  shows "\<exists>body chatReq. read_body env = Some body \<and> unmarshal_req body = Some chatReq \<and>
           MCPServers u =
             (if Model chatReq = searchModelName then [''deep-web-search''] else [[]])"
proof -
  from chatHandler_dispatched [OF assms] obtain body chatReq where
    b: "read_body env = Some body" "unmarshal_req body = Some chatReq"
    and u: "u = upstream_request chatReq (chat_id env) (msg_id env) (current_datetime env)"
    by blast
  from u have "MCPServers u =
      (if Model chatReq = searchModelName then [''deep-web-search''] else [[]])"
    by (simp only: upstream_request_MCPServers)
  with b show ?thesis by blast
qed

theorem mcp_servers_single_element_witness:
  "dispatched (chatHandler sample_config sample_unmarshal_request sample_unmarshal
       (sample_request ''plain'' ''Bearer 123456'' []) zero_counters) =
     Some (upstream_request (json_request ''GLM-4.5'' False) ''1-1'' ''1''
             ''2025-01-03 00:00:00'', ''token'') \<and>
   (\<exists>body chatReq.
      read_body (sample_request ''plain'' ''Bearer 123456'' []) = Some body \<and>
      sample_unmarshal_request body = Some chatReq \<and>
      MCPServers (upstream_request (json_request ''GLM-4.5'' False) ''1-1'' ''1''
                    ''2025-01-03 00:00:00'') =
        (if Model chatReq = searchModelName then [''deep-web-search''] else [[]]))"
proof -
  have h: "dispatched (chatHandler sample_config sample_unmarshal_request sample_unmarshal
       (sample_request ''plain'' ''Bearer 123456'' []) zero_counters) =
     Some (upstream_request (json_request ''GLM-4.5'' False) ''1-1'' ''1''
             ''2025-01-03 00:00:00'', ''token'')"
    by code_simp
  from mcp_servers_single_element [OF h] h show ?thesis by blast
qed


section \<open>Invariants of the streaming translator\<close>

lemma final_simps [simp]: "final (Returned t) = t" "final (Panicked t) = t"
  by (simp_all add: final_def)

lemma emit_fields [simp]:
  "isInThinkBlock (emit f t) = isInThinkBlock t"
  "bufferedThinkContent (emit f t) = bufferedThinkContent t"
  "streamClosed (emit f t) = streamClosed t"
  "sentInitialAnswer (emit f t) = sentInitialAnswer t"
  "written (emit f t) = written t @ [f]"
  by (simp_all add: emit_def)

lemma initial_answer_fields [simp]:
  "isInThinkBlock (initial_answer u t) = isInThinkBlock t"
  "bufferedThinkContent (initial_answer u t) = bufferedThinkContent t"
  "streamClosed (initial_answer u t) = streamClosed t"
  by (simp_all add: initial_answer_def split: list.splits)

lemma delta_emission_fields [simp]:
  "isInThinkBlock (delta_emission cfg u t) = isInThinkBlock t"
  "bufferedThinkContent (delta_emission cfg u t) = bufferedThinkContent t"
  "streamClosed (delta_emission cfg u t) = streamClosed t"
  by (simp_all add: delta_emission_def Let_def)

lemma done_detection_fields [simp]:
  "isInThinkBlock (done_detection u t) = isInThinkBlock t"
  "bufferedThinkContent (done_detection u t) = bufferedThinkContent t"
  by (simp_all add: done_detection_def)

lemma sendThinkContentSafe_fields [simp]:
  "isInThinkBlock (sendThinkContentSafe c t) = isInThinkBlock t"
  "bufferedThinkContent (sendThinkContentSafe c t) = bufferedThinkContent t"
  "streamClosed (sendThinkContentSafe c t) = streamClosed t"
  by (simp_all add: sendThinkContentSafe_def)

lemma processStreamLine_flags:
  "isInThinkBlock (processStreamLine cfg unmarshal line t) = isInThinkBlock t"
  "bufferedThinkContent (processStreamLine cfg unmarshal line t) = bufferedThinkContent t"
  by (simp_all add: processStreamLine_def Let_def split: option.splits)

text \<open>
  A relation between translator states that is reflexive and transitive and holds
  across \<open>processStreamLine\<close> on an open stream holds across the loops.
\<close>

lemma process_lines_rel:
  assumes "\<forall>t. R t t"
    and "\<forall>line t. \<not> streamClosed t \<longrightarrow> R t (processStreamLine cfg unmarshal line t)"
    and "\<forall>a b c. R a b \<longrightarrow> R b c \<longrightarrow> R a c"
  shows "R t (snd (process_lines cfg unmarshal lb t))"
  using assms
proof (induction cfg unmarshal lb t rule: process_lines.induct)
  case (1 cfg unmarshal lineBuffer t)
  note r = "1.prems"(1) and s = "1.prems"(2) and tr = "1.prems"(3)
  show ?case
  proof (cases "Index lineBuffer [CHR 0x0A]")
    case None
    then show ?thesis by (simp add: process_lines.simps r)
  next
    case (Some lineEnd)
    define t' where "t' = (if \<not> streamClosed t
        then processStreamLine cfg unmarshal (take lineEnd lineBuffer) t else t)"
    have step: "R t t'"
      by (simp add: t'_def r s)
    show ?thesis
    proof (cases "streamClosed t'")
      case True
      with Some step show ?thesis
        by (simp add: process_lines.simps [of cfg unmarshal lineBuffer t] Let_def t'_def)
    next
      case False
      have "R t' (snd (process_lines cfg unmarshal (drop (lineEnd + 1) lineBuffer) t'))"
        by (rule "1.IH" [OF Some refl refl t'_def False r s tr])
      with step tr
      have "R t (snd (process_lines cfg unmarshal (drop (lineEnd + 1) lineBuffer) t'))"
        by blast
      with Some False show ?thesis
        by (simp add: process_lines.simps [of cfg unmarshal lineBuffer t] Let_def t'_def)
    qed
  qed
qed

lemma read_loop_rel:
  assumes r: "\<forall>t. R t t"
    and s: "\<forall>line t. \<not> streamClosed t \<longrightarrow> R t (processStreamLine cfg unmarshal line t)"
    and tr: "\<forall>a b c. R a b \<longrightarrow> R b c \<longrightarrow> R a c"
  shows "R t (final (read_loop cfg unmarshal alive reads lb k t))"
proof (induction reads arbitrary: lb k t)
  case Nil
  show ?case
    using r s by (simp add: read_loop.simps [of _ _ _ "[]"] Let_def at_eof_def)
next
  case (Cons rd rest)
  obtain chunk err where rd: "rd = (chunk, err)" by (cases rd)
  define p where "p = (if chunk \<noteq> []
      then process_lines cfg unmarshal (guard_lineBuffer (lb @ chunk)) t else (lb, t))"
  have p: "R t (snd p)"
    using r process_lines_rel [of R, OF r s tr] by (simp add: p_def)
  have "R (snd p) (at_eof cfg unmarshal (fst p) (snd p))"
    using r s by (simp add: at_eof_def)
  with p tr have e: "R t (at_eof cfg unmarshal (fst p) (snd p))"
    by blast
  have n: "R t (final (read_loop cfg unmarshal alive rest (fst p) k' (snd p)))" for k'
    using p Cons.IH [of "snd p" "fst p" k'] tr by blast
  show ?case
    unfolding rd read_loop.simps [of _ _ _ "(chunk, err) # rest"]
    using p e n r unfolding p_def
    by (auto simp: Let_def case_prod_unfold split: option.splits read_error.splits)
qed

lemma read_loop_flags:
  "isInThinkBlock (final (read_loop cfg unmarshal alive reads lb k t)) = isInThinkBlock t \<and>
   bufferedThinkContent (final (read_loop cfg unmarshal alive reads lb k t)) =
     bufferedThinkContent t"
  by (rule read_loop_rel
      [of "\<lambda>a b. isInThinkBlock b = isInThinkBlock a \<and>
                 bufferedThinkContent b = bufferedThinkContent a"])
     (simp_all add: processStreamLine_flags)

lemma final_think_flush_initial:
  "isInThinkBlock t = False \<Longrightarrow> final_think_flush t = t"
  by (simp add: final_think_flush_def)

lemma translate_stream_final:
  "final (translate_stream cfg unmarshal env) =
     (if streamBufferSize cfg < 0 then emit (Chunk firstChunk) initial_translator
      else final (read_loop cfg unmarshal (client_alive env) (body_reads env) [] 0
                    (emit (Chunk firstChunk) initial_translator)))"
proof -
  let ?init = "emit (Chunk firstChunk) initial_translator"
  let ?r = "read_loop cfg unmarshal (client_alive env) (body_reads env) [] 0 ?init"
  have "isInThinkBlock (final ?r) = False"
    using read_loop_flags [of cfg unmarshal "client_alive env" "body_reads env" "[]" 0 ?init]
    by (simp add: initial_translator_def)
  then have "final_think_flush (final ?r) = final ?r"
    by (rule final_think_flush_initial)
  then show ?thesis
    by (cases ?r) (simp_all add: translate_stream_def Let_def)
qed

lemma written_prefix:
  "prefix (written t) (written (processStreamLine cfg unmarshal line t))"
  by (simp add: processStreamLine_def Let_def initial_answer_def delta_emission_def
      done_detection_def sendThinkContentSafe_def
      split: option.splits list.splits)

lemma read_loop_written_prefix:
  "prefix (written t) (written (final (read_loop cfg unmarshal alive reads lb k t)))"
  by (rule read_loop_rel [of "\<lambda>a b. prefix (written a) (written b)"])
     (auto simp: written_prefix intro: prefix_order.trans)


section \<open>Framing of the terminal line\<close>









lemma handleStreamResponse_body:
  "flusher_ok env \<Longrightarrow>
   Body (handleStreamResponse cfg unmarshal env) =
     Event_stream (written (final (translate_stream cfg unmarshal env)))"
  by (cases "translate_stream cfg unmarshal env") (simp_all add: handleStreamResponse_def)


section \<open>Lines of the upstream body\<close>

lemma Index_nl:
  "CHR 0x0A \<notin> set l \<Longrightarrow> Index (l @ CHR 0x0A # rest) [CHR 0x0A] = Some (length l)"
  by (induction l) auto

lemma Index_nl_None: "CHR 0x0A \<notin> set l \<Longrightarrow> Index l [CHR 0x0A] = None"
  by (induction l) auto

lemma Index_nl_iff: "Index l [CHR 0x0A] = None \<longleftrightarrow> CHR 0x0A \<notin> set l"
  by (induction l) (auto split: option.splits)

lemma Index_nl_Some: "Index l [CHR 0x0A] = Some i \<Longrightarrow> CHR 0x0A \<in> set l"
  using Index_nl_None [of l] by auto

lemma Index_Some_split:
  "Index s sep = Some i \<Longrightarrow> s = take i s @ sep @ drop (i + length sep) s"
proof (induction s arbitrary: i)
  case Nil
  then show ?case by (simp split: if_splits)
next
  case (Cons c cs)
  show ?case
  proof (cases "prefix sep (c # cs)")
    case True
    with Cons.prems have "i = 0" by simp
    with True show ?thesis by (auto simp: prefix_def)
  next
    case False
    with Cons.prems obtain j where j: "Index cs sep = Some j" "i = Suc j"
      by (auto split: option.splits)
    from Cons.IH [OF j(1)] j(2) show ?thesis by simp
  qed
qed

lemma Index_append:
  "Index a sep = Some i \<Longrightarrow> Index (a @ b) sep = Some i"
proof (induction a arbitrary: i)
  case Nil
  then show ?case by (cases b) (auto split: if_splits)
next
  case (Cons c cs)
  show ?case
  proof (cases "prefix sep (c # cs)")
    case True
    then have "prefix sep ((c # cs) @ b)" by (metis prefix_prefix)
    with True Cons.prems show ?thesis by simp
  next
    case False
    with Cons.prems obtain j where j: "Index cs sep = Some j" "i = Suc j"
      by (auto split: option.splits)
    have "\<not> prefix sep (c # cs @ b)"
    proof
      assume p: "prefix sep (c # cs @ b)"
      from j(1) have "j + length sep \<le> length cs" by (rule Index_le)
      then have "length sep \<le> length (c # cs)" by simp
      with p have "prefix sep (c # cs)"
        by (metis append_Cons prefix_length_prefix prefixI)
      with False show False by simp
    qed
    with Cons.IH [OF j(1)] j(2) show ?thesis by simp
  qed
qed

lemma process_lines_closed:
  "streamClosed t \<Longrightarrow> snd (process_lines cfg unmarshal lb t) = t"
  by (simp add: process_lines.simps [of cfg unmarshal lb t] Let_def split: option.splits)

lemma process_lines_no_nl:
  "CHR 0x0A \<notin> set lb \<Longrightarrow> process_lines cfg unmarshal lb t = (lb, t)"
  by (simp add: process_lines.simps [of cfg unmarshal lb t] Index_nl_None)

lemma process_lines_line:
  "CHR 0x0A \<notin> set l \<Longrightarrow>
   process_lines cfg unmarshal (l @ CHR 0x0A # rest) t =
     (let t' = (if \<not> streamClosed t then processStreamLine cfg unmarshal l t else t)
      in if streamClosed t' then (rest, t') else process_lines cfg unmarshal rest t')"
  by (simp add: process_lines.simps [of cfg unmarshal "l @ CHR 0x0A # rest" t] Index_nl Let_def)

lemma process_lines_rest_no_nl:
  "\<not> streamClosed (snd (process_lines cfg unmarshal lb t)) \<Longrightarrow>
   CHR 0x0A \<notin> set (fst (process_lines cfg unmarshal lb t))"
proof (induction cfg unmarshal lb t rule: process_lines.induct)
  case (1 cfg unmarshal lineBuffer t)
  show ?case
  proof (cases "Index lineBuffer [CHR 0x0A]")
    case None
    then have "CHR 0x0A \<notin> set lineBuffer" by (simp add: Index_nl_iff)
    with None show ?thesis
      by (simp add: process_lines.simps [of cfg unmarshal lineBuffer t])
  next
    case (Some lineEnd)
    define t' where "t' = (if \<not> streamClosed t
        then processStreamLine cfg unmarshal (take lineEnd lineBuffer) t else t)"
    have eq: "process_lines cfg unmarshal lineBuffer t =
        (if streamClosed t' then (drop (lineEnd + 1) lineBuffer, t')
         else process_lines cfg unmarshal (drop (lineEnd + 1) lineBuffer) t')"
      using Some by (simp add: process_lines.simps [of cfg unmarshal lineBuffer t] Let_def t'_def)
    show ?thesis
    proof (cases "streamClosed t'")
      case True
      with eq "1.prems" show ?thesis by simp
    next
      case False
      with eq "1.prems" "1.IH" [OF Some refl refl t'_def False] show ?thesis by simp
    qed
  qed
qed

lemma process_lines_append:
  "snd (process_lines cfg unmarshal (a @ b) t) =
     (if streamClosed (snd (process_lines cfg unmarshal a t))
      then snd (process_lines cfg unmarshal a t)
      else snd (process_lines cfg unmarshal (fst (process_lines cfg unmarshal a t) @ b)
                  (snd (process_lines cfg unmarshal a t))))"
proof (induction cfg unmarshal a t rule: process_lines.induct)
  case (1 cfg unmarshal lineBuffer t)
  show ?case
  proof (cases "Index lineBuffer [CHR 0x0A]")
    case None
    then have "process_lines cfg unmarshal lineBuffer t = (lineBuffer, t)"
      by (simp add: process_lines.simps [of cfg unmarshal lineBuffer t])
    then show ?thesis by (simp add: process_lines_closed)
  next
    case (Some lineEnd)
    define t' where "t' = (if \<not> streamClosed t
        then processStreamLine cfg unmarshal (take lineEnd lineBuffer) t else t)"
    have le: "lineEnd + 1 \<le> length lineBuffer"
      using Index_le [OF Some] by simp
    have eq: "process_lines cfg unmarshal lineBuffer t =
        (if streamClosed t' then (drop (lineEnd + 1) lineBuffer, t')
         else process_lines cfg unmarshal (drop (lineEnd + 1) lineBuffer) t')"
      using Some by (simp add: process_lines.simps [of cfg unmarshal lineBuffer t] Let_def t'_def)
    have eq2: "process_lines cfg unmarshal (lineBuffer @ b) t =
        (if streamClosed t' then (drop (lineEnd + 1) lineBuffer @ b, t')
         else process_lines cfg unmarshal (drop (lineEnd + 1) lineBuffer @ b) t')"
      using Index_append [OF Some, of b] le
      by (simp add: process_lines.simps [of cfg unmarshal "lineBuffer @ b" t] Let_def t'_def)
    show ?thesis
    proof (cases "streamClosed t'")
      case True
      with eq eq2 show ?thesis by simp
    next
      case False
      with eq eq2 "1.IH" [OF Some refl refl t'_def False] show ?thesis by simp
    qed
  qed
qed


section \<open>The read loop on a body that closes the stream\<close>

lemma LastIndex_nl_None: "CHR 0x0A \<notin> set s \<Longrightarrow> LastIndex s [CHR 0x0A] = None"
  by (simp add: LastIndex_def Index_nl_None)

lemma guard_lineBuffer_id:
  assumes "CHR 0x0A \<notin> set lb" and "length chunk \<le> 524288"
  shows "guard_lineBuffer (lb @ chunk) = lb @ chunk"
proof (cases "1024 * 1024 < length (lb @ chunk)")
  case False
  then show ?thesis by (simp add: guard_lineBuffer_def)
next
  case True
  define n where "n = length (lb @ chunk) div 2"
  from True assms(2) have "n \<le> length lb" by (simp add: n_def)
  then have t: "take n (lb @ chunk) = take n lb"
    by simp
  have "CHR 0x0A \<notin> set (take n lb)"
    using assms(1) by (auto dest: in_set_takeD)
  then have "LastIndex (take n lb) [CHR 0x0A] = None"
    by (rule LastIndex_nl_None)
  then have "LastIndex (take n (lb @ chunk)) [CHR 0x0A] = None"
    by (subst t)
  then have "LastIndex (take (length (lb @ chunk) div 2) (lb @ chunk)) [CHR 0x0A] = None"
    by (simp only: n_def)
  with True show ?thesis
    by (simp only: guard_lineBuffer_def if_True option.case)
qed

lemma read_loop_Nil:
  "client_stays cfg alive \<Longrightarrow>
   read_loop cfg unmarshal alive [] lb k t =
     Returned (if streamClosed t then t else at_eof cfg unmarshal lb t)"
  by (auto simp: read_loop.simps [of _ _ _ "[]"] Let_def client_stays_def)

lemma read_loop_Cons:
  "client_stays cfg alive \<Longrightarrow>
   read_loop cfg unmarshal alive ((chunk, err) # rest) lb k t =
     (if streamClosed t then Returned t
      else (let p = (if chunk \<noteq> []
                     then process_lines cfg unmarshal (guard_lineBuffer (lb @ chunk)) t
                     else (lb, t))
            in case err of
                 Some EOF \<Rightarrow> Returned (at_eof cfg unmarshal (fst p) (snd p))
               | Some ReadFailed \<Rightarrow> Returned (snd p)
               | None \<Rightarrow>
                   read_loop cfg unmarshal alive rest (fst p)
                     (if \<not> disableConnectionCheck cfg then k + 1 else k) (snd p)))"
  by (auto simp: read_loop.simps [of _ _ _ "(chunk, err) # rest"] Let_def client_stays_def
      case_prod_unfold split: option.splits read_error.splits)

lemma read_loop_closing:
  assumes stay: "client_stays cfg alive"
    and sizes: "\<forall>r \<in> set reads. length (fst r) \<le> 524288"
    and errs: "\<forall>r \<in> set (butlast reads). snd r = None"
    and nl: "CHR 0x0A \<notin> set lb"
    and closes: "streamClosed (snd (process_lines cfg unmarshal (lb @ concat (map fst reads)) t))"
  shows "read_loop cfg unmarshal alive reads lb k t =
     Returned (snd (process_lines cfg unmarshal (lb @ concat (map fst reads)) t))"
  using sizes errs nl closes
proof (induction reads arbitrary: lb k t)
  case Nil
  then show ?case
    by (simp add: read_loop_Nil [OF stay] process_lines_no_nl)
next
  case (Cons rd rest)
  obtain chunk err where rd: "rd = (chunk, err)" by (cases rd)
  let ?text = "concat (map fst rest)"
  let ?k = "if \<not> disableConnectionCheck cfg then k + 1 else k"
  show ?case
  proof (cases "streamClosed t")
    case True
    then show ?thesis
      by (simp add: rd read_loop_Cons [OF stay] process_lines_closed)
  next
    case unclosed: False
    have size: "length chunk \<le> 524288" and sizes': "\<forall>r \<in> set rest. length (fst r) \<le> 524288"
      using Cons.prems(1) by (simp_all add: rd)
    have errs': "\<forall>r \<in> set (butlast rest). snd r = None"
      using Cons.prems(2) by (auto split: if_splits)
    have err_last: "rest \<noteq> [] \<Longrightarrow> err = None"
      using Cons.prems(2) by (simp add: rd)
    define p where "p = process_lines cfg unmarshal (lb @ chunk) t"
    have all: "snd (process_lines cfg unmarshal (lb @ chunk @ ?text) t) =
        (if streamClosed (snd p) then snd p
         else snd (process_lines cfg unmarshal (fst p @ ?text) (snd p)))"
      using process_lines_append [of cfg unmarshal "lb @ chunk" ?text t]
      by (simp add: p_def)
    have closes: "streamClosed (snd (process_lines cfg unmarshal (lb @ chunk @ ?text) t))"
      using Cons.prems(4) by (simp add: rd)
    have p_eq: "(if chunk \<noteq> []
                 then process_lines cfg unmarshal (guard_lineBuffer (lb @ chunk)) t
                 else (lb, t)) = p"
      using Cons.prems(3) size
      by (simp add: p_def guard_lineBuffer_id process_lines_no_nl)
    have step: "read_loop cfg unmarshal alive ((chunk, err) # rest) lb k t =
        (case err of
           Some EOF \<Rightarrow> Returned (at_eof cfg unmarshal (fst p) (snd p))
         | Some ReadFailed \<Rightarrow> Returned (snd p)
         | None \<Rightarrow> read_loop cfg unmarshal alive rest (fst p) ?k (snd p))"
      using unclosed by (simp only: read_loop_Cons [OF stay] p_eq Let_def if_False)
    show ?thesis
    proof (cases "streamClosed (snd p)")
      case True
      then have "read_loop cfg unmarshal alive rest (fst p) k' (snd p) = Returned (snd p)" for k'
        by (cases rest) (auto simp: read_loop_Nil [OF stay] read_loop_Cons [OF stay])
      with True all step show ?thesis
        by (simp add: rd at_eof_def split: option.splits read_error.splits)
    next
      case False
      have nl': "CHR 0x0A \<notin> set (fst p)"
        using False process_lines_rest_no_nl [of cfg unmarshal "lb @ chunk" t]
        by (simp add: p_def)
      have "rest \<noteq> []"
      proof
        assume "rest = []"
        with all False closes show False by (simp add: process_lines_no_nl nl')
      qed
      then have "err = None" by (rule err_last)
      moreover have "streamClosed (snd (process_lines cfg unmarshal (fst p @ ?text) (snd p)))"
        using all False closes by simp
      ultimately show ?thesis
        using Cons.IH [OF sizes' errs' nl', of "snd p" ?k] all False step
        by (simp add: rd)
    qed
  qed
qed


section \<open>Lines that carry an event\<close>

lemma TrimLeftSpace_id: "leading_space s = None \<Longrightarrow> TrimLeftSpace s = s"
  by (simp add: TrimLeftSpace.simps [of s])

lemma TrimRightSpace_id: "trailing_space s = None \<Longrightarrow> TrimRightSpace s = s"
  by (simp add: TrimRightSpace.simps [of s])

lemma TrimSpace_id: "leading_space s = None \<Longrightarrow> trailing_space s = None \<Longrightarrow> TrimSpace s = s"
  by (simp add: TrimSpace_def TrimLeftSpace_id TrimRightSpace_id)

lemma space_runes_nonempty: "list_all (\<lambda>r. r \<noteq> []) space_runes"
  by (simp add: space_runes_def)

lemma leading_space_Cons:
  assumes "c \<notin> set space_first_bytes"
  shows "leading_space (c # s) = None"
proof -
  have "\<not> prefix r (c # s)" if r: "r \<in> set space_runes" for r
  proof
    assume p: "prefix r (c # s)"
    from r space_runes_nonempty have "r \<noteq> []"
      by (simp add: list_all_iff)
    with p have "hd r = c"
      by (cases r) auto
    with r have "c \<in> set space_first_bytes"
      by (auto simp: space_first_bytes_def)
    with assms show False by simp
  qed
  then show ?thesis
    by (simp add: leading_space_def find_None_iff)
qed

lemma trailing_space_snoc:
  assumes "c \<notin> set space_last_bytes"
  shows "trailing_space (s @ [c]) = None"
proof -
  have "\<not> prefix (rev r) (rev (s @ [c]))" if r: "r \<in> set space_runes" for r
  proof
    assume p: "prefix (rev r) (rev (s @ [c]))"
    from r space_runes_nonempty have ne: "r \<noteq> []"
      by (simp add: list_all_iff)
    then have "rev r = last r # rev (butlast r)"
      by (metis append_butlast_last_id rev.simps(2) rev_append rev_rev_ident)
    with p have "last r = c"
      by simp
    with r have "c \<in> set space_last_bytes"
      by (auto simp: space_last_bytes_def)
    with assms show False by simp
  qed
  then show ?thesis
    by (simp add: trailing_space_def find_None_iff)
qed

lemma not_space_bytes:
  "CHR ''d'' \<notin> set space_first_bytes"
  "CHR ''{'' \<notin> set space_first_bytes"
  "CHR ''}'' \<notin> set space_last_bytes"
  by (simp_all add: space_first_bytes_def space_last_bytes_def space_runes_def)

lemma json_object_shape:
  "json_object js \<Longrightarrow> \<exists>b. js = CHR ''{'' # b @ [CHR ''}'']"
proof -
  assume j: "json_object js"
  then obtain c r where t: "js = c # r" "r \<noteq> []"
    by (cases js; cases "tl js") (auto simp: json_object_def)
  with j have "c = CHR ''{''" "last r = CHR ''}''"
    by (auto simp: json_object_def)
  with t show ?thesis
    by (metis append_butlast_last_id)
qed

lemma TrimSpace_json_object: "json_object js \<Longrightarrow> TrimSpace js = js"
proof -
  assume "json_object js"
  then obtain b where b: "js = CHR ''{'' # b @ [CHR ''}'']"
    by (auto dest: json_object_shape)
  have "trailing_space ((CHR ''{'' # b) @ [CHR ''}'']) = None"
    by (rule trailing_space_snoc) (simp add: not_space_bytes)
  moreover have "leading_space (CHR ''{'' # (b @ [CHR ''}''])) = None"
    by (rule leading_space_Cons) (simp add: not_space_bytes)
  ultimately show ?thesis
    by (simp add: b TrimSpace_id)
qed

lemma TrimSpace_data_line:
  "json_object js \<Longrightarrow> TrimSpace (data_line js) = data_line js"
proof -
  assume "json_object js"
  then obtain b where b: "js = CHR ''{'' # b @ [CHR ''}'']"
    by (auto dest: json_object_shape)
  have "trailing_space ((''data: {'' @ b) @ [CHR ''}'']) = None"
    by (rule trailing_space_snoc) (simp add: not_space_bytes)
  moreover have "leading_space (CHR ''d'' # (''ata: {'' @ b @ [CHR ''}''])) = None"
    by (rule leading_space_Cons) (simp add: not_space_bytes)
  ultimately show ?thesis
    by (simp add: b TrimSpace_id data_line_def)
qed

lemma processStreamLine_event:
  assumes "json_object js"
  shows "processStreamLine cfg unmarshal (data_line js) t =
     (case unmarshal js of
        None \<Rightarrow> t
      | Some u \<Rightarrow>
          if has_error u
          then (emit DONE (emit (Chunk endChunk) t))\<lparr>streamClosed := True\<rparr>
          else done_detection u (delta_emission cfg u (initial_answer u t)))"
proof -
  from assms obtain b where b: "js = CHR ''{'' # b @ [CHR ''}'']"
    by (auto dest: json_object_shape)
  have ne: "js \<noteq> ''[DONE]''" "js \<noteq> []"
    by (simp_all add: b)
  have l: "TrimSpace (data_line js) = data_line js"
    by (rule TrimSpace_data_line [OF assms])
  have d: "drop 6 (data_line js) = js"
    by (simp add: data_line_def)
  have h: "HasPrefix (data_line js) ''data: ''"
    by (simp add: HasPrefix_def data_line_def)
  show ?thesis
    unfolding processStreamLine_def Let_def l d TrimSpace_json_object [OF assms]
    using ne h by simp
qed

lemma processStreamLine_DONE:
  "processStreamLine cfg unmarshal (data_line ''[DONE]'') t =
     (emit DONE (if isInThinkBlock t \<and> bufferedThinkContent t \<noteq> []
                 then sendThinkContentSafe (bufferedThinkContent t) t else t))
       \<lparr>streamClosed := True\<rparr>"
proof -
  have "TrimSpace ''data: [DONE]'' = ''data: [DONE]''" "TrimSpace ''[DONE]'' = ''[DONE]''"
    by code_simp+
  then show ?thesis
    by (simp add: processStreamLine_def Let_def HasPrefix_def data_line_def)
qed


section \<open>Events of the answer phase in the streaming translator\<close>


lemma process_lines_sse_line:
  assumes "CHR 0x0A \<notin> set js"
  shows "process_lines cfg unmarshal (sse_line js @ rest) t =
     (let t' = (if \<not> streamClosed t
                then processStreamLine cfg unmarshal (data_line js) t else t)
      in if streamClosed t' then (rest, t') else process_lines cfg unmarshal rest t')"
proof -
  have "CHR 0x0A \<notin> set (data_line js)"
    using assms by (simp add: data_line_def)
  from process_lines_line [OF this, of cfg unmarshal rest t] show ?thesis
    by (simp add: sse_line_def)
qed

lemma processStreamLine_answer:
  assumes "json_object js" and "unmarshal js = Some u" and "answer_delta u d"
  shows "processStreamLine cfg unmarshal (data_line js) t =
     t\<lparr>written := written t @ answer_frames [d]\<rparr>"
  using assms(2,3)
  by (simp add: processStreamLine_event [OF assms(1)] answer_delta_def initial_answer_def
      delta_emission_def done_detection_def answer_frames_def emit_def)

lemma processStreamLine_done_signal:
  assumes "json_object js" and "unmarshal js = Some u" and "done_signal u"
  shows "processStreamLine cfg unmarshal (data_line js) t =
     t\<lparr>written := written t @ [Chunk endChunk, DONE], streamClosed := True\<rparr>"
  using assms(2,3)
  by (auto simp: processStreamLine_event [OF assms(1)] done_signal_def initial_answer_def
      delta_emission_def done_detection_def emit_def)

lemma process_lines_answers:
  assumes "\<forall>e \<in> set evs. json_object (fst e) \<and>
             (\<exists>u. unmarshal (fst e) = Some u \<and> answer_delta u (snd e))"
    and "\<not> streamClosed t"
  shows "process_lines cfg unmarshal (concat (map (\<lambda>e. sse_line (fst e)) evs) @ rest) t =
     process_lines cfg unmarshal rest
       (t\<lparr>written := written t @ answer_frames (map snd evs)\<rparr>)"
  using assms
proof (induction evs arbitrary: t)
  case Nil
  then show ?case by (simp add: answer_frames_def)
next
  case (Cons e evs)
  from Cons.prems(1) obtain u where
    j: "json_object (fst e)" and u: "unmarshal (fst e) = Some u" "answer_delta u (snd e)"
    by auto
  let ?t = "t\<lparr>written := written t @ answer_frames [snd e]\<rparr>"
  have nl: "CHR 0x0A \<notin> set (fst e)"
    using j by (simp add: json_object_def)
  have "process_lines cfg unmarshal
          (sse_line (fst e) @ (concat (map (\<lambda>e. sse_line (fst e)) evs) @ rest)) t =
        process_lines cfg unmarshal (concat (map (\<lambda>e. sse_line (fst e)) evs) @ rest) ?t"
    using Cons.prems(2)
    by (simp add: process_lines_sse_line [OF nl]
        processStreamLine_answer [of "fst e" unmarshal u "snd e", OF j u] Let_def)
  also have "\<dots> = process_lines cfg unmarshal rest
      (?t\<lparr>written := written ?t @ answer_frames (map snd evs)\<rparr>)"
    using Cons.prems by (intro Cons.IH) simp_all
  finally show ?case
    by (simp add: answer_frames_def)
qed


section \<open>The content a client reads from a stream\<close>

lemma stream_content_append [simp]:
  "stream_content (a @ b) = stream_content a @ stream_content b"
  by (simp add: stream_content_def)

lemma stream_content_answer_frames: "stream_content (answer_frames ds) = concat ds"
  by (induction ds)
    (simp_all add: answer_frames_def stream_content_def chunk_content_def content_chunk_def
      stream_chunk_def zero_Delta_def)

lemma stream_content_fixed:
  "stream_content [Chunk firstChunk] = []"
  "stream_content [DONE] = []"
  "stream_content [Chunk endChunk, DONE] = []"
  by (simp_all add: stream_content_def chunk_content_def firstChunk_def endChunk_def
      stream_chunk_def zero_Delta_def)

lemma process_lines_marker:
  assumes "marker = ''[DONE]'' \<or>
      (json_object marker \<and> (\<exists>u. unmarshal marker = Some u \<and> done_signal u))"
    and "\<not> streamClosed t" and "\<not> isInThinkBlock t"
  shows "snd (process_lines cfg unmarshal (sse_line marker) t) =
     t\<lparr>written := written t @ (if marker = ''[DONE]'' then [DONE] else [Chunk endChunk, DONE]),
       streamClosed := True\<rparr>"
proof (cases "marker = ''[DONE]''")
  case True
  have "CHR 0x0A \<notin> set ''[DONE]''" by simp
  from process_lines_sse_line [OF this, of cfg unmarshal "[]" t] assms(2,3) True
  show ?thesis
    by (simp add: processStreamLine_DONE emit_def)
next
  case False
  with assms(1) obtain u where
    j: "json_object marker" and u: "unmarshal marker = Some u" "done_signal u"
    by auto
  have nl: "CHR 0x0A \<notin> set marker"
    using j by (simp add: json_object_def)
  from process_lines_sse_line [OF nl, of cfg unmarshal "[]" t] assms(2) False
  show ?thesis
    by (simp add: processStreamLine_done_signal [of marker unmarshal u, OF j u])
qed

lemma translate_answers:
  assumes events: "\<forall>e \<in> set evs. json_object (fst e) \<and>
        (\<exists>u. unmarshal (fst e) = Some u \<and> answer_delta u (snd e))"
    and marker: "marker = ''[DONE]'' \<or>
        (json_object marker \<and> (\<exists>u. unmarshal marker = Some u \<and> done_signal u))"
    and body: "concat (map fst (body_reads env)) =
        concat (map (\<lambda>e. sse_line (fst e)) evs) @ sse_line marker"
    and sizes: "\<forall>r \<in> set (body_reads env). length (fst r) \<le> 524288"
    and errs: "\<forall>r \<in> set (butlast (body_reads env)). snd r = None"
    and buf: "0 \<le> streamBufferSize cfg"
    and stay: "client_stays cfg (client_alive env)"
  shows "translate_stream cfg unmarshal env =
     Returned
       \<lparr>isInThinkBlock = False, bufferedThinkContent = [], streamClosed = True,
        sentInitialAnswer = False,
        written = Chunk firstChunk # answer_frames (map snd evs) @
           (if marker = ''[DONE]'' then [DONE] else [Chunk endChunk, DONE])\<rparr>"
proof -
  let ?init = "emit (Chunk firstChunk) initial_translator"
  let ?mid = "?init\<lparr>written := written ?init @ answer_frames (map snd evs)\<rparr>"
  let ?sse = "concat (map (\<lambda>e. sse_line (fst e)) evs) @ sse_line marker"
  have open0: "\<not> streamClosed ?init"
    by (simp add: initial_translator_def)
  have "process_lines cfg unmarshal ?sse ?init = process_lines cfg unmarshal (sse_line marker) ?mid"
    using events open0 by (rule process_lines_answers)
  moreover have "snd (process_lines cfg unmarshal (sse_line marker) ?mid) =
      ?mid\<lparr>written := written ?mid @
               (if marker = ''[DONE]'' then [DONE] else [Chunk endChunk, DONE]),
            streamClosed := True\<rparr>"
    using marker by (rule process_lines_marker) (simp_all add: initial_translator_def)
  ultimately have fin: "snd (process_lines cfg unmarshal ?sse ?init) =
      \<lparr>isInThinkBlock = False, bufferedThinkContent = [], streamClosed = True,
        sentInitialAnswer = False,
        written = Chunk firstChunk # answer_frames (map snd evs) @
           (if marker = ''[DONE]'' then [DONE] else [Chunk endChunk, DONE])\<rparr>"
    by (simp add: initial_translator_def emit_def)
  have "read_loop cfg unmarshal (client_alive env) (body_reads env) [] 0 ?init =
      Returned (snd (process_lines cfg unmarshal ([] @ concat (map fst (body_reads env))) ?init))"
    using stay sizes errs by (rule read_loop_closing) (simp_all add: body fin)
  then show ?thesis
    using buf by (simp add: translate_stream_def Let_def body fin final_think_flush_def)
qed


section \<open>Events of the answer phase in the aggregator\<close>

lemma ScanLines_sse_line:
  assumes nl: "CHR 0x0A \<notin> set js" and len: "length js < 65530"
    and cr: "js \<noteq> []" "last js \<noteq> CHR 0x0D"
  shows "ScanLines (sse_line js @ rest) = data_line js # ScanLines rest"
proof -
  have n: "CHR 0x0A \<notin> set (data_line js)"
    using nl by (simp add: data_line_def)
  have l: "length (data_line js) < 65536"
    using len by (simp add: data_line_def)
  have d: "dropCR (data_line js) = data_line js"
    using cr by (simp add: dropCR_def data_line_def)
  have i: "Index (data_line js @ CHR 0x0A # rest) [CHR 0x0A] = Some (length (data_line js))"
    using n by (rule Index_nl)
  have e: "sse_line js @ rest = data_line js @ CHR 0x0A # rest"
    by (simp add: sse_line_def)
  show ?thesis
    unfolding e using l d i
    by (simp add: ScanLines.simps [of "data_line js @ CHR 0x0A # rest"])
qed

lemma ScanLines_Nil: "ScanLines [] = []"
  by (simp add: ScanLines.simps)

lemma json_object_line:
  assumes "json_object js"
  shows "CHR 0x0A \<notin> set js" "js \<noteq> []" "last js \<noteq> CHR 0x0D" "js \<noteq> ''[DONE]''"
  using assms by (auto simp: json_object_def)

lemma collect_content_answer:
  assumes "json_object js" and "unmarshal js = Some u" and "answer_delta u d"
  shows "collect_content cfg unmarshal (data_line js # lines) acc =
     collect_content cfg unmarshal lines (acc @ d)"
proof -
  have p: "HasPrefix (data_line js) ''data: ''" "TrimPrefix (data_line js) ''data: '' = js"
    by (simp_all add: TrimPrefix_def HasPrefix_def data_line_def)
  show ?thesis
    using assms(2,3) json_object_line [OF assms(1)]
    by (simp add: p Let_def answer_delta_def)
qed

lemma collect_content_done_signal:
  assumes "json_object js" and "unmarshal js = Some u" and "done_signal u"
  shows "collect_content cfg unmarshal (data_line js # lines) acc = acc"
proof -
  have p: "HasPrefix (data_line js) ''data: ''" "TrimPrefix (data_line js) ''data: '' = js"
    by (simp_all add: TrimPrefix_def HasPrefix_def data_line_def)
  show ?thesis
    using assms(2,3) json_object_line [OF assms(1)]
    by (simp add: p Let_def done_signal_def)
qed

lemma collect_content_DONE:
  "collect_content cfg unmarshal (data_line ''[DONE]'' # lines) acc =
     collect_content cfg unmarshal lines acc"
proof -
  have p: "HasPrefix (data_line ''[DONE]'') ''data: ''"
      "TrimPrefix (data_line ''[DONE]'') ''data: '' = ''[DONE]''"
    by (simp_all add: TrimPrefix_def HasPrefix_def data_line_def)
  show ?thesis
    by (simp add: p Let_def)
qed

lemma collect_answers:
  assumes "\<forall>e \<in> set evs. json_object (fst e) \<and> length (fst e) < 65530 \<and>
             (\<exists>u. unmarshal (fst e) = Some u \<and> answer_delta u (snd e))"
  shows "collect_content cfg unmarshal
           (ScanLines (concat (map (\<lambda>e. sse_line (fst e)) evs) @ rest)) acc =
         collect_content cfg unmarshal (ScanLines rest) (acc @ concat (map snd evs))"
  using assms
proof (induction evs arbitrary: acc)
  case Nil
  then show ?case by simp
next
  case (Cons e evs)
  from Cons.prems obtain u where
    j: "json_object (fst e)" and l: "length (fst e) < 65530"
    and u: "unmarshal (fst e) = Some u" "answer_delta u (snd e)"
    by auto
  note line = json_object_line [OF j]
  let ?R = "concat (map (\<lambda>e. sse_line (fst e)) evs) @ rest"
  have s: "ScanLines (sse_line (fst e) @ ?R) = data_line (fst e) # ScanLines ?R"
    using line(1) l line(2,3) by (rule ScanLines_sse_line)
  have "collect_content cfg unmarshal (ScanLines (sse_line (fst e) @ ?R)) acc =
      collect_content cfg unmarshal (data_line (fst e) # ScanLines ?R) acc"
    by (simp only: s)
  also have "\<dots> = collect_content cfg unmarshal (ScanLines ?R) (acc @ snd e)"
    using j u by (rule collect_content_answer)
  also have "\<dots> = collect_content cfg unmarshal (ScanLines rest)
      ((acc @ snd e) @ concat (map snd evs))"
    using Cons.prems by (intro Cons.IH) simp
  finally show ?case
    by simp
qed

lemma aggregate_answers:
  assumes events: "\<forall>e \<in> set evs. json_object (fst e) \<and> length (fst e) < 65530 \<and>
        (\<exists>u. unmarshal (fst e) = Some u \<and> answer_delta u (snd e))"
    and marker: "marker = ''[DONE]'' \<or>
        (json_object marker \<and> length marker < 65530 \<and>
         (\<exists>u. unmarshal marker = Some u \<and> done_signal u))"
  shows "collect_content cfg unmarshal
           (ScanLines (concat (map (\<lambda>e. sse_line (fst e)) evs) @ sse_line marker)) [] =
         concat (map snd evs)"
proof -
  have m: "ScanLines (sse_line marker @ []) = data_line marker # ScanLines []"
  proof (rule ScanLines_sse_line)
    show "CHR 0x0A \<notin> set marker" "length marker < 65530" "marker \<noteq> []"
        "last marker \<noteq> CHR 0x0D"
      using marker by (auto simp: json_object_def)
  qed
  have "collect_content cfg unmarshal (data_line marker # []) acc = acc" for acc
  proof (cases "marker = ''[DONE]''")
    case True
    then show ?thesis
      by (simp only: collect_content_DONE collect_content.simps(1))
  next
    case False
    with marker obtain u where "json_object marker" "unmarshal marker = Some u" "done_signal u"
      by auto
    then show ?thesis by (rule collect_content_done_signal)
  qed
  with m collect_answers [OF events, of cfg "sse_line marker" "[]"] show ?thesis
    by (simp add: ScanLines_Nil del: collect_content.simps)
qed

lemma delivered_bytes_concat:
  "\<forall>r \<in> set (butlast reads). snd r = None \<Longrightarrow>
   delivered_bytes reads = concat (map fst reads)"
proof (induction reads)
  case Nil
  then show ?case by simp
next
  case (Cons rd rest)
  obtain chunk err where rd: "rd = (chunk, err)" by (cases rd)
  show ?case
  proof (cases "rest = []")
    case True
    then show ?thesis by (simp add: rd split: option.splits)
  next
    case False
    with Cons show ?thesis by (simp add: rd)
  qed
qed


section \<open>The sample inputs are well formed\<close>

lemma sample_json_objects:
  "json_object json_answer_Hel" "json_object json_answer_lo" "json_object json_done"
  "json_object json_thinking" "json_object json_error_with_delta"
  by (simp_all add: json_object_def json_answer_Hel_def json_answer_lo_def json_done_def
      json_thinking_def json_error_with_delta_def)

lemma sample_json_lengths:
  "length json_answer_Hel < 65530" "length json_answer_lo < 65530" "length json_done < 65530"
  by (simp_all add: json_answer_Hel_def json_answer_lo_def json_done_def)

lemma sample_unmarshal_simps:
  "sample_unmarshal json_answer_Hel = Some (event ''answer'' ''Hel'' False)"
  "sample_unmarshal json_answer_lo = Some (event ''answer'' ''lo'' False)"
  "sample_unmarshal json_done = Some (event ''done'' [] True)"
  by (simp_all add: sample_unmarshal_def json_answer_Hel_def json_answer_lo_def json_done_def
      json_thinking_def json_error_with_delta_def)

lemma sample_event_kinds:
  "answer_delta (event ''answer'' d False) d"
  "done_signal (event ''done'' [] True)"
  by (simp_all add: answer_delta_def done_signal_def event_def has_error_def)

lemma sample_environment:
  "flusher_ok (sample_upstream reads)" "body_reads (sample_upstream reads) = reads"
  "client_stays sample_config (client_alive (sample_upstream reads))"
  "0 \<le> streamBufferSize sample_config"
  by (simp_all add: sample_upstream_def client_stays_def sample_config_def)


section \<open>A line longer than the buffer of the scanner\<close>

lemma long_delta_facts:
  "length long_delta = 65536" "set long_delta = {CHR ''a''}" "long_delta \<noteq> []"
  by (auto simp: long_delta_def)

lemma json_long_answer_object: "json_object json_long_answer"
  by (simp add: json_object_def json_long_answer_def long_delta_facts)

lemma ScanLines_too_long:
  assumes "CHR 0x0A \<notin> set l" and "65536 \<le> length l"
  shows "ScanLines (l @ CHR 0x0A # rest) = []"
  using assms
  by (simp add: ScanLines.simps [of "l @ CHR 0x0A # rest"] Index_nl)

lemma long_answer_streamed:
  "Body (handleStreamResponse sample_config long_unmarshal
      (sample_upstream [(sse_line json_long_answer @ sse_line ''[DONE]'', Some EOF)])) =
     Event_stream [Chunk firstChunk, Chunk (content_chunk long_delta), DONE]"
proof -
  let ?env = "sample_upstream [(sse_line json_long_answer @ sse_line ''[DONE]'', Some EOF)]"
  let ?evs = "[(json_long_answer, long_delta)]"
  have events: "\<forall>e \<in> set ?evs. json_object (fst e) \<and>
        (\<exists>u. long_unmarshal (fst e) = Some u \<and> answer_delta u (snd e))"
    by (simp add: json_long_answer_object long_unmarshal_def sample_event_kinds)
  have marker: "''[DONE]'' = ''[DONE]'' \<or>
        (json_object ''[DONE]'' \<and> (\<exists>u. long_unmarshal ''[DONE]'' = Some u \<and> done_signal u))"
    by simp
  have body: "concat (map fst (body_reads ?env)) =
        concat (map (\<lambda>e. sse_line (fst e)) ?evs) @ sse_line ''[DONE]''"
    by (simp add: sample_environment)
  have sizes: "\<forall>r \<in> set (body_reads ?env). length (fst r) \<le> 524288"
    by (simp add: sample_environment sse_line_def data_line_def json_long_answer_def
        long_delta_facts)
  have errs: "\<forall>r \<in> set (butlast (body_reads ?env)). snd r = None"
    by (simp add: sample_environment)
  have "written (final (translate_stream sample_config long_unmarshal ?env)) =
      Chunk firstChunk # answer_frames (map snd ?evs) @ [DONE]"
    by (simp only: translate_answers [OF events marker body sizes errs
          sample_environment(4) sample_environment(3)]
        final_simps translator.simps refl if_True)
  then show ?thesis
    by (simp add: handleStreamResponse_body sample_environment answer_frames_def
        long_delta_facts)
qed


section \<open>Two sample streams\<close>

lemma sample_stream:
  "translate_stream sample_config sample_unmarshal (sample_upstream sample_reads) =
     Returned
       \<lparr>isInThinkBlock = False, bufferedThinkContent = [], streamClosed = True,
        sentInitialAnswer = False,
        written = [Chunk firstChunk, Chunk (content_chunk ''Hel''), Chunk (content_chunk ''lo''),
                   Chunk endChunk, DONE]\<rparr>"
proof -
  have events: "\<forall>e \<in> set sample_events. json_object (fst e) \<and>
        (\<exists>u. sample_unmarshal (fst e) = Some u \<and> answer_delta u (snd e))"
    by (simp add: sample_events_def sample_json_objects sample_unmarshal_simps
        sample_event_kinds)
  have marker: "json_done = ''[DONE]'' \<or>
        (json_object json_done \<and> (\<exists>u. sample_unmarshal json_done = Some u \<and> done_signal u))"
    by (simp add: sample_json_objects sample_unmarshal_simps sample_event_kinds)
  have body: "concat (map fst (body_reads (sample_upstream sample_reads))) =
        concat (map (\<lambda>e. sse_line (fst e)) sample_events) @ sse_line json_done"
    by (simp add: sample_environment sample_reads_def sample_events_def)
  have sizes: "\<forall>r \<in> set (body_reads (sample_upstream sample_reads)). length (fst r) \<le> 524288"
    by (simp add: sample_environment sample_reads_def sse_line_def data_line_def
        json_answer_Hel_def json_answer_lo_def json_done_def)
  have errs: "\<forall>r \<in> set (butlast (body_reads (sample_upstream sample_reads))). snd r = None"
    by (simp add: sample_environment sample_reads_def)
  have ne: "json_done \<noteq> ''[DONE]''"
    by (simp add: json_done_def)
  from translate_answers [OF events marker body sizes errs
      sample_environment(4) sample_environment(3)] ne
  show ?thesis
    by (simp add: sample_events_def answer_frames_def)
qed




section \<open>A decoded line\<close>

lemma chunk_shapes:
  "map Delta (Choices (reasoning_chunk out)) =
     [\<lparr>delta_Role = [], delta_Content = [], delta_ReasoningContent = out\<rparr>]"
  "map Delta (Choices (content_chunk d)) =
     [\<lparr>delta_Role = [], delta_Content = d, delta_ReasoningContent = []\<rparr>]"
  by (simp_all add: reasoning_chunk_def content_chunk_def stream_chunk_def zero_Delta_def)

lemma processStreamLine_decoded:
  assumes "HasPrefix (TrimSpace line) ''data: ''"
    and "TrimSpace (drop 6 (TrimSpace line)) = js"
    and "js \<noteq> ''[DONE]''" and "js \<noteq> []"
    and "unmarshal js = Some u"
  shows "processStreamLine cfg unmarshal line t =
     (if has_error u
      then (emit DONE (emit (Chunk endChunk) t))\<lparr>streamClosed := True\<rparr>
      else done_detection u (delta_emission cfg u (initial_answer u t)))"
  using assms by (simp add: processStreamLine_def Let_def)

lemma sample_thinking_line:
  "TrimSpace (data_line json_thinking) = data_line json_thinking"
  "TrimSpace json_thinking = json_thinking"
  "TrimSpace (data_line json_error_with_delta) = data_line json_error_with_delta"
  "TrimSpace json_error_with_delta = json_error_with_delta"
  by (simp_all add: TrimSpace_data_line TrimSpace_json_object sample_json_objects)

lemma sample_thinking_transformed:
  "transformThinking sample_config ''<details open>reasoning</details>'' =
     ''<think>reasoning</think>''"
  by code_simp

lemma sample_unmarshal_more:
  "sample_unmarshal json_thinking =
     Some (event ''thinking'' ''<details open>reasoning</details>'' False)"
  "sample_unmarshal json_error_with_delta =
     Some ((event ''answer'' ''Hel'' False)\<lparr>Error := Some \<lparr>Detail = ''busy'', Code = 500\<rparr>\<rparr>)"
  by (simp_all add: sample_unmarshal_def json_answer_Hel_def json_answer_lo_def json_done_def
      json_thinking_def json_error_with_delta_def)


section \<open>Sample requests\<close>

lemma sample_key: "TrimSpace (TrimPrefix ''Bearer 123456'' ''Bearer '') = ''123456''"
  "TrimSpace (TrimPrefix ''Bearer wrong'' ''Bearer '') = ''wrong''"
  by code_simp+

lemma int64_id: "- (2 ^ 63) \<le> x \<Longrightarrow> x < 2 ^ 63 \<Longrightarrow> int64 x = x"
  by (simp add: int64_def sint_sbintrunc' signed_take_bit_int_eq_self)

lemma sample_dispatch_succeeds: "fst (requestWithRetry sample_config sample_dispatch) = Success 0"
  by (simp add: requestWithRetry_def sample_config_def sample_dispatch_def randomDelay_def
      Let_def int64_id numeral_3_eq_3)

lemma sample_config_fields:
  "defaultKey sample_config = ''123456''" "anonTokenEnabled sample_config = True"
  "upstreamToken sample_config = ''token''" "performanceMode sample_config = ''balanced''"
  by (simp_all add: sample_config_def)

lemma handleStreamResponse_status:
  "StatusCode (handleStreamResponse cfg unmarshal env) = (if flusher_ok env then 200 else 500)"
  by (cases "translate_stream cfg unmarshal env") (simp_all add: handleStreamResponse_def)


section \<open>The pauses of the dispatcher\<close>

lemma pauses_before_append_pause:
  "\<forall>e \<in> set ps. \<forall>j. e \<noteq> Post j \<Longrightarrow>
   pauses_before i acc (ps @ evs) = pauses_before i (acc @ ps) evs"
proof (induction ps arbitrary: acc)
  case Nil
  then show ?case by simp
next
  case (Cons p ps)
  then show ?case by (cases p) simp_all
qed

lemma no_post:
  "\<forall>e \<in> set (backoff_of cfg i). \<forall>j. e \<noteq> Post j"
  "\<forall>e \<in> set (jitter_of cfg env i). \<forall>j. e \<noteq> Post j"
  "\<forall>e \<in> set (wait_of cfg env i). \<forall>j. e \<noteq> Post j"
  by (auto simp: backoff_of_def jitter_of_def wait_of_def randomDelay_def Let_def
      split: option.splits if_splits attempt_result.splits)

lemma pauses_before_Some_Post:
  "pauses_before i acc evs = Some ps \<Longrightarrow> Post i \<in> set evs"
  by (induction i acc evs rule: pauses_before.induct) (auto split: if_splits)

lemma retry_loop_events:
  "snd (retry_loop cfg env (Suc n) k lastErr) =
     (if 0 < k \<and> ctx_done_in_backoff env k then []
      else (case randomDelay cfg (random_source env k) of
              None \<Rightarrow> backoff_of cfg k
            | Some jit \<Rightarrow>
                if \<not> new_request_ok env
                then backoff_of cfg k @ jit @
                     snd (retry_loop cfg env n (Suc k) (Some Request_failed))
                else backoff_of cfg k @ jit @ Post k # next_events cfg env n k lastErr))"
proof (cases "0 < k \<and> ctx_done_in_backoff env k")
  case True
  then show ?thesis by simp
next
  case nc: False
  have bo: "(if 0 < k then [Backoff (backoff_duration cfg k)] else []) = backoff_of cfg k"
    by (simp add: backoff_of_def)
  show ?thesis
  proof (cases "randomDelay cfg (random_source env k)")
    case None
    with nc show ?thesis by (auto simp: Let_def bo)
  next
    case (Some jit)
    show ?thesis
    proof (cases "new_request_ok env")
      case False
      with nc Some show ?thesis by (auto simp: Let_def bo after_def)
    next
      case True
      show ?thesis
      proof (cases "attempt env k")
        case Transport_error
        with nc Some True show ?thesis
          by (auto simp: Let_def bo after_def next_events_def)
      next
        case (Status code)
        with nc Some True show ?thesis
          by (auto simp: Let_def bo after_def next_events_def)
      qed
    qed
  qed
qed

lemma retry_loop_no_request:
  "\<not> new_request_ok env \<Longrightarrow> Post j \<notin> set (snd (retry_loop cfg env n k lastErr))"
proof (induction n arbitrary: k lastErr)
  case 0
  then show ?case by simp
next
  case (Suc n)
  have "Post j \<notin> set (backoff_of cfg k)"
    using no_post(1) [of cfg k] by blast
  moreover have "Post j \<notin> set jit" if "randomDelay cfg (random_source env k) = Some jit" for jit
    using no_post(2) [of cfg env k] that by (auto simp: jitter_of_def)
  ultimately show ?case
    using Suc by (auto simp: retry_loop_events simp del: retry_loop.simps split: option.splits)
qed

lemma pauses_before_retry_loop:
  assumes "pauses_before i acc (snd (retry_loop cfg env n k lastErr)) = Some ps"
    and "\<forall>e \<in> set acc. \<forall>j. e \<noteq> Post j"
  shows "(i = k \<and> ps = acc @ backoff_of cfg k @ jitter_of cfg env k) \<or>
         (k < i \<and> ps = wait_of cfg env (i - 1) @ backoff_of cfg i @ jitter_of cfg env i)"
  using assms
proof (induction n arbitrary: k lastErr acc)
  case 0
  then show ?case by simp
next
  case (Suc n)
  let ?evs = "snd (retry_loop cfg env (Suc n) k lastErr)"
  let ?pre = "backoff_of cfg k @ jitter_of cfg env k"
  have pre: "\<forall>e \<in> set ?pre. \<forall>j. e \<noteq> Post j"
    using no_post(1) [of cfg k] no_post(2) [of cfg env k] by auto
  have post: "Post i \<in> set ?evs"
    using Suc.prems(1) by (rule pauses_before_Some_Post)
  have ok: "new_request_ok env"
    using post retry_loop_no_request [of env i cfg "Suc n" k lastErr] by blast
  have nc: "\<not> (0 < k \<and> ctx_done_in_backoff env k)"
    using post by (auto simp: retry_loop_events simp del: retry_loop.simps)
  obtain jit where jit: "randomDelay cfg (random_source env k) = Some jit"
    using post nc no_post(1) [of cfg k]
    by (cases "randomDelay cfg (random_source env k)")
      (auto simp: retry_loop_events simp del: retry_loop.simps)
  then have j: "jitter_of cfg env k = jit"
    by (simp add: jitter_of_def)
  have ev: "?evs = ?pre @ Post k # next_events cfg env n k lastErr"
    using ok nc jit by (simp add: retry_loop_events j del: retry_loop.simps)
  have "pauses_before i acc (?pre @ Post k # next_events cfg env n k lastErr) = Some ps"
    using Suc.prems(1) by (simp only: ev)
  then have split: "(if k = i then Some (acc @ ?pre)
      else pauses_before i [] (next_events cfg env n k lastErr)) = Some ps"
    using pauses_before_append_pause [of ?pre i acc "Post k # next_events cfg env n k lastErr"] pre
    by simp
  show ?case
  proof (cases "k = i")
    case True
    with split show ?thesis by simp
  next
    case False
    with split have t: "pauses_before i [] (next_events cfg env n k lastErr) = Some ps"
      by simp
    have "\<exists>e. pauses_before i (wait_of cfg env k)
        (snd (retry_loop cfg env n (Suc k) e)) = Some ps"
      using t
      by (auto simp: next_events_def wait_of_def split: attempt_result.splits if_splits)
    then obtain e where
      "pauses_before i (wait_of cfg env k) (snd (retry_loop cfg env n (Suc k) e)) = Some ps"
      by blast
    from Suc.IH [OF this no_post(3)] False show ?thesis
      by auto
  qed
qed


section \<open>Durations within the range of 64 bits\<close>

lemma product_bounds:
  fixes d p :: int
  assumes "1 \<le> d" and "0 < p" and "d * p * 1000000 < B"
  shows "p < B" and "d * p < B"
proof -
  have "p * 1 \<le> p * d"
    using assms(1,2) by (intro mult_left_mono) simp_all
  then have 1: "p \<le> d * p"
    by (simp add: mult.commute)
  have "0 \<le> d * p"
    using assms(1,2) by simp
  then have "d * p * 1 \<le> d * p * 1000000"
    by (intro mult_left_mono) simp_all
  then have 2: "d * p \<le> d * p * 1000000"
    by simp
  from 2 assms(3) show "d * p < B" by linarith
  with 1 show "p < B" by linarith
qed

lemma backoff_duration_exact:
  assumes "0 \<le> retryDelay cfg" and "retryDelay cfg * 2 ^ i * 1000000 < 2 ^ 63"
  shows "backoff_duration cfg i = retryDelay cfg * 2 ^ i * Millisecond"
proof (cases "retryDelay cfg = 0")
  case True
  then show ?thesis
    by (simp add: backoff_duration_def int64_id Millisecond_def)
next
  case False
  with assms(1) have pos: "1 \<le> retryDelay cfg" by simp
  have p: "(0::int) < 2 ^ i" by simp
  note b = product_bounds [OF pos p assms(2)]
  have i: "i < 63"
  proof (rule ccontr)
    assume "\<not> i < 63"
    then have "(2::int) ^ 63 \<le> 2 ^ i"
      by (intro power_increasing) simp_all
    with b(1) show False by linarith
  qed
  have nn: "0 \<le> retryDelay cfg * 2 ^ i" "0 \<le> retryDelay cfg * 2 ^ i * 1000000"
    using assms(1) by simp_all
  have "int64 (retryDelay cfg * 2 ^ i) = retryDelay cfg * 2 ^ i"
    using nn(1) b(2) by (intro int64_id) linarith+
  moreover have "int64 (retryDelay cfg * 2 ^ i * 1000000) = retryDelay cfg * 2 ^ i * 1000000"
    using nn(2) assms(2) by (intro int64_id) linarith+
  ultimately show ?thesis
    using i by (simp only: backoff_duration_def pow2_int_def Millisecond_def if_True)
qed

lemma randomDelay_exact:
  assumes "0 \<le> randomDelayMin cfg" and "randomDelayMax cfg * 1000000 < 2 ^ 63"
  shows "randomDelay cfg r =
     Some (if randomDelayMax cfg > randomDelayMin cfg
           then [Jitter ((randomDelayMin cfg + r mod (randomDelayMax cfg - randomDelayMin cfg)) *
                   Millisecond)]
           else [])"
proof (cases "randomDelayMax cfg > randomDelayMin cfg")
  case False
  then show ?thesis by (simp add: randomDelay_def)
next
  case True
  let ?n = "randomDelayMax cfg - randomDelayMin cfg"
  let ?d = "randomDelayMin cfg + r mod ?n"
  have n: "0 < ?n" "?n \<le> randomDelayMax cfg"
    using True assms(1) by simp_all
  have m: "0 \<le> r mod ?n" "r mod ?n < ?n"
    using n(1) by simp_all
  have d: "0 \<le> ?d" "?d < randomDelayMax cfg"
    using m assms(1) by simp_all
  have big: "?d * 1000000 < 2 ^ 63"
    using d assms(2) by (smt (verit) mult_right_mono)
  have dd: "?d \<le> ?d * 1000000"
    using d(1) by simp
  have "int64 ?n = ?n"
    using n assms(2) by (intro int64_id) simp_all
  moreover have "int64 (r mod ?n + randomDelayMin cfg) = ?d"
    using d big dd by (simp add: add.commute int64_id)
  moreover have "int64 (?d * 1000000) = ?d * 1000000"
    using d big by (intro int64_id) simp_all
  ultimately show ?thesis
    using True n(1) by (simp add: randomDelay_def Let_def Millisecond_def)
qed


section \<open>Two sample runs of the dispatcher\<close>

lemma sample_dispatch_events:
  "snd (requestWithRetry sample_config sample_dispatch) = [Jitter 107000000, Post 0]"
  by (simp add: requestWithRetry_def numeral_3_eq_3 sample_config_def sample_dispatch_def
      randomDelay_def Let_def int64_id Millisecond_def)

lemma limited_dispatch_events:
  "snd (requestWithRetry sample_config limited_dispatch) =
     [Jitter 107000000, Post 0, RateLimitWait 1000000000,
      Backoff 2000000000, Jitter 107000000, Post 1, RateLimitWait 2000000000,
      Backoff 4000000000, Jitter 107000000, Post 2]"
  by (simp add: requestWithRetry_def numeral_3_eq_3 sample_config_def sample_dispatch_def
      limited_dispatch_def randomDelay_def Let_def int64_id Millisecond_def after_def
      backoff_duration_def wait_duration_def pow2_int_def)


section \<open>Closing lines of the upstream body\<close>


lemma body_lines_last: "CHR 0x0A \<notin> set l \<Longrightarrow> body_lines l = [l]"
  by (simp add: body_lines_def Split.simps [of l] Index_nl_None)

lemma body_lines_line:
  "CHR 0x0A \<notin> set l \<Longrightarrow> body_lines (l @ CHR 0x0A # rest) = l # body_lines rest"
  by (simp add: body_lines_def Split.simps [of "l @ CHR 0x0A # rest"] Index_nl)
















lemma closing_line_DONE: "closing_line unmarshal ''data: [DONE]''"
proof -
  have "TrimSpace ''data: [DONE]'' = ''data: [DONE]''" "TrimSpace ''[DONE]'' = ''[DONE]''"
    by code_simp+
  then show ?thesis
    by (simp add: closing_line_def Let_def HasPrefix_def)
qed


lemma body_lines_Nil: "body_lines [] = [[]]"
  by (simp add: body_lines_last)




lemma padding_facts:
  "length padding = 1048576" "CHR 0x0A \<notin> set padding" "padding \<noteq> []"
  "hd padding = CHR ''a''" "last padding = CHR ''a''"
  by (simp_all add: padding_def)

lemma LastIndex_nl_last:
  "CHR 0x0A \<notin> set y \<Longrightarrow> LastIndex (x @ CHR 0x0A # y) [CHR 0x0A] = Some (length x)"
  using Index_nl [of "rev y" "rev x"] by (simp add: LastIndex_def)

lemma DONE_line_facts:
  "CHR 0x0A \<notin> set (data_line ''[DONE]'')" "length (data_line ''[DONE]'') = 12"
  "closing_line unmarshal (data_line ''[DONE]'')"
  using closing_line_DONE [of unmarshal] by (simp_all add: data_line_def)

lemma guard_oversized_read: "guard_lineBuffer oversized_read = padding"
proof -
  let ?l = "data_line ''[DONE]''"
  have e: "oversized_read = ?l @ CHR 0x0A # padding"
    by (simp add: oversized_read_def sse_line_def)
  have len: "length oversized_read = 1048589"
    by (simp add: e DONE_line_facts padding_facts)
  have "take 524294 oversized_read = ?l @ CHR 0x0A # take 524281 padding"
    by (simp add: e DONE_line_facts)
  moreover have "CHR 0x0A \<notin> set (take 524281 padding)"
    using padding_facts(2) by (auto dest: in_set_takeD)
  ultimately have "LastIndex (take 524294 oversized_read) [CHR 0x0A] = Some 12"
    using LastIndex_nl_last [of "take 524281 padding" ?l] by (simp add: DONE_line_facts)
  moreover have "drop 13 oversized_read = padding"
    by (simp add: e DONE_line_facts)
  ultimately show ?thesis
    by (simp add: guard_lineBuffer_def len)
qed

lemma processStreamLine_padding: "processStreamLine cfg unmarshal padding t = t"
proof -
  obtain b where b: "padding = CHR ''a'' # b"
    by (metis padding_facts(3,4) list.collapse)
  obtain c where c: "padding = c @ [CHR ''a'']"
    using padding_facts(3,5) by (metis append_butlast_last_id)
  have a: "CHR ''a'' \<notin> set space_first_bytes" "CHR ''a'' \<notin> set space_last_bytes"
    by (simp_all add: space_first_bytes_def space_last_bytes_def space_runes_def)
  have "leading_space padding = None"
    unfolding b by (rule leading_space_Cons [OF a(1)])
  moreover have "trailing_space padding = None"
    by (subst c) (rule trailing_space_snoc [OF a(2)])
  ultimately have "TrimSpace padding = padding"
    by (rule TrimSpace_id)
  then show ?thesis
    by (simp add: processStreamLine_def Let_def HasPrefix_def b)
qed


section \<open>Strings the thinking transformer leaves alone\<close>

lemma Index_sublist: "Index s p = Some i \<Longrightarrow> sublist p s"
  using Index_Some_split [of s p i] by (metis sublist_appendI)

lemma sublist_Index:
  assumes "sublist p s"
  shows "Index s p \<noteq> None"
proof -
  from assms obtain a c where s: "s = a @ p @ c"
    by (auto simp: sublist_def)
  have "Index (a @ p @ c) p \<noteq> None"
  proof (induction a)
    case Nil
    have "prefix p (p @ c)" by simp
    then show ?case by (cases "p @ c") auto
  next
    case (Cons x a)
    then show ?case by auto
  qed
  with s show ?thesis by simp
qed

lemma Index_None_iff: "Index s p = None \<longleftrightarrow> \<not> sublist p s"
  using Index_sublist [of s p] sublist_Index [of p s] by (cases "Index s p") auto

lemma ReplaceAll_absent:
  assumes "\<not> sublist old s"
  shows "ReplaceAll s old new = s"
proof -
  from assms have "Index s old = None"
    by (simp add: Index_None_iff)
  then show ?thesis
    by (simp add: ReplaceAll.simps [of s old new])
qed

lemma remove_summary_absent:
  assumes "\<forall>b. \<not> sublist (''<summary>'' @ b @ ''</summary>'') s"
  shows "remove_summary s = s"
proof (cases "Index s ''<summary>''")
  case None
  then show ?thesis by (simp add: remove_summary.simps [of s])
next
  case (Some i)
  show ?thesis
  proof (cases "Index (drop (i + 9) s) ''</summary>''")
    case None
    with Some show ?thesis by (simp add: remove_summary.simps [of s])
  next
    case (Some j)
    let ?r = "drop (i + 9) s"
    from Index_Some_split [OF \<open>Index s ''<summary>'' = Some i\<close>]
    have 1: "s = take i s @ ''<summary>'' @ ?r" by (simp add: eval_nat_numeral)
    from Index_Some_split [OF Some]
    have 2: "?r = take j ?r @ ''</summary>'' @ drop (j + 10) ?r" by simp
    have "s = take i s @ (''<summary>'' @ take j ?r @ ''</summary>'') @ drop (j + 10) ?r"
      by (subst 1, subst 2) simp
    then have "sublist (''<summary>'' @ take j ?r @ ''</summary>'') s"
      by (metis sublist_appendI)
    with assms show ?thesis by blast
  qed
qed

lemma replace_details_absent:
  assumes "\<forall>b. \<not> sublist (''<details'' @ b @ ''>'') s"
  shows "replace_details s repl = s"
proof (cases "Index s ''<details''")
  case None
  then show ?thesis by (simp add: replace_details.simps [of s])
next
  case (Some i)
  show ?thesis
  proof (cases "Index (drop (i + 8) s) ''>''")
    case None
    with Some show ?thesis by (simp add: replace_details.simps [of s])
  next
    case (Some j)
    let ?r = "drop (i + 8) s"
    from Index_Some_split [OF \<open>Index s ''<details'' = Some i\<close>]
    have 1: "s = take i s @ ''<details'' @ ?r" by (simp add: eval_nat_numeral)
    from Index_Some_split [OF Some]
    have 2: "?r = take j ?r @ ''>'' @ drop (j + 1) ?r" by simp
    have "s = take i s @ (''<details'' @ take j ?r @ ''>'') @ drop (j + 1) ?r"
      by (subst 1, subst 2) simp
    then have "sublist (''<details'' @ take j ?r @ ''>'') s"
      by (metis sublist_appendI)
    with assms show ?thesis by blast
  qed
qed

lemma TrimLeftSpace_suffix: "suffix (TrimLeftSpace s) s"
proof (induction s rule: TrimLeftSpace.induct)
  case (1 s)
  show ?case
  proof (cases "leading_space s")
    case None
    then show ?thesis by (simp add: TrimLeftSpace.simps [of s])
  next
    case (Some r)
    from "1.IH" [OF Some] have "suffix (TrimLeftSpace (drop (length r) s)) s"
      by (meson suffix_drop suffix_order.trans)
    with Some show ?thesis by (simp add: TrimLeftSpace.simps [of s])
  qed
qed

lemma TrimRightSpace_prefix: "prefix (TrimRightSpace s) s"
proof (induction s rule: TrimRightSpace.induct)
  case (1 s)
  show ?case
  proof (cases "trailing_space s")
    case None
    then show ?thesis by (simp add: TrimRightSpace.simps [of s])
  next
    case (Some r)
    from "1.IH" [OF Some] have "prefix (TrimRightSpace (take (length s - length r) s)) s"
      by (meson take_is_prefix prefix_order.trans)
    with Some show ?thesis by (simp add: TrimRightSpace.simps [of s])
  qed
qed

lemma TrimSpace_sublist: "sublist (TrimSpace s) s"
proof -
  have "sublist (TrimRightSpace (TrimLeftSpace s)) (TrimLeftSpace s)"
    using TrimRightSpace_prefix by (rule prefix_imp_sublist)
  moreover have "sublist (TrimLeftSpace s) s"
    using TrimLeftSpace_suffix by (rule suffix_imp_sublist)
  ultimately show ?thesis
    unfolding TrimSpace_def by (meson sublist_order.order.trans)
qed

lemma leading_space_TrimLeftSpace: "leading_space (TrimLeftSpace s) = None"
proof (induction s rule: TrimLeftSpace.induct)
  case (1 s)
  show ?case
  proof (cases "leading_space s")
    case None
    then show ?thesis by (simp add: TrimLeftSpace.simps [of s])
  next
    case (Some r)
    with "1.IH" [OF Some] show ?thesis by (simp add: TrimLeftSpace.simps [of s])
  qed
qed

lemma trailing_space_TrimRightSpace: "trailing_space (TrimRightSpace s) = None"
proof (induction s rule: TrimRightSpace.induct)
  case (1 s)
  show ?case
  proof (cases "trailing_space s")
    case None
    then show ?thesis by (simp add: TrimRightSpace.simps [of s])
  next
    case (Some r)
    with "1.IH" [OF Some] show ?thesis by (simp add: TrimRightSpace.simps [of s])
  qed
qed

lemma leading_space_prefix:
  assumes "leading_space s = None" and "prefix t s"
  shows "leading_space t = None"
proof -
  have "\<not> prefix r t" if "r \<in> set space_runes" for r
  proof
    assume "prefix r t"
    with assms(2) have "prefix r s" by (meson prefix_order.trans)
    with assms(1) that show False
      by (simp add: leading_space_def find_None_iff)
  qed
  then show ?thesis
    by (simp add: leading_space_def find_None_iff)
qed

lemma TrimSpace_ends:
  "leading_space (TrimSpace s) = None" "trailing_space (TrimSpace s) = None"
  unfolding TrimSpace_def
  using leading_space_prefix [OF leading_space_TrimLeftSpace TrimRightSpace_prefix]
  by (simp_all add: trailing_space_TrimRightSpace)

lemma TrimSpace_idem: "TrimSpace (TrimSpace s) = TrimSpace s"
  by (rule TrimSpace_id) (rule TrimSpace_ends)+

lemma sublist_TrimSpace: "\<not> sublist p s \<Longrightarrow> \<not> sublist p (TrimSpace s)"
  using TrimSpace_sublist [of s] by (meson sublist_order.order.trans)

lemma transformThinking_plain:
  assumes summary: "\<forall>b. \<not> sublist (''<summary>'' @ b @ ''</summary>'') s"
    and details: "\<forall>b. \<not> sublist (''<details'' @ b @ ''>'') s" "\<not> sublist ''</details>'' s"
    and literals: "\<not> sublist ''</thinking>'' s" "\<not> sublist ''<Full>'' s" "\<not> sublist ''</Full>'' s"
    and quoted: "\<not> sublist [CHR 0x0A, CHR ''>'', CHR '' ''] s"
    and trimmed: "\<not> prefix ''> '' (TrimSpace s)"
  shows "transformThinking cfg s = TrimSpace s"
proof -
  let ?t = "TrimSpace s"
  have d: "replace_details ?t repl = ?t" for repl
    using details(1) by (intro replace_details_absent) (meson sublist_TrimSpace)
  have c: "ReplaceAll ?t ''</details>'' new = ?t" for new
    using details(2) by (intro ReplaceAll_absent sublist_TrimSpace)
  have q: "ReplaceAll ?t [CHR 0x0A, CHR ''>'', CHR '' ''] [CHR 0x0A] = ?t"
    using quoted by (intro ReplaceAll_absent sublist_TrimSpace)
  have p: "TrimPrefix ?t ''> '' = ?t"
    using trimmed by (simp only: TrimPrefix_def HasPrefix_def if_False)
  show ?thesis
    unfolding transformThinking_def Let_def remove_summary_absent [OF summary]
      ReplaceAll_absent [OF literals(1)] ReplaceAll_absent [OF literals(2)]
      ReplaceAll_absent [OF literals(3)] d c
    by (simp only: p q TrimSpace_idem if_cancel)
qed

lemma sublist_chars: "sublist p s \<Longrightarrow> set p \<subseteq> set s"
  by (auto simp: sublist_def)


section \<open>Round trip of answer deltas\<close>

text \<open>
  C4. An upstream body of one answer event whose delta has 65536 bytes, followed by
  the line \<open>data: [DONE]\<close>: the streaming path delivers the delta, the aggregator
  delivers an empty content. The line exceeds the buffer of \<open>bufio.Scanner\<close>, the scan
  stops, and \<open>handleNonStreamResponse\<close> does not look at the error of the scanner.
\<close>

theorem long_answer_lost:
  "json_object json_long_answer \<and>
   long_unmarshal json_long_answer = Some (event ''answer'' long_delta False) \<and>
   answer_delta (event ''answer'' long_delta False) long_delta \<and>
   long_delta \<noteq> [] \<and>
   Body (handleStreamResponse sample_config long_unmarshal
      (sample_upstream [(sse_line json_long_answer @ sse_line ''[DONE]'', Some EOF)])) =
     Event_stream [Chunk firstChunk, Chunk (content_chunk long_delta), DONE] \<and>
   message_content (handleNonStreamResponse sample_config long_unmarshal
      (sse_line json_long_answer @ sse_line ''[DONE]'')) = Some []"
proof -
  have n: "CHR 0x0A \<notin> set (data_line json_long_answer)"
    by (simp add: data_line_def json_long_answer_def long_delta_facts)
  have l: "65536 \<le> length (data_line json_long_answer)"
    by (simp add: data_line_def json_long_answer_def long_delta_facts)
  have e: "sse_line json_long_answer @ sse_line ''[DONE]'' =
      data_line json_long_answer @ CHR 0x0A # sse_line ''[DONE]''"
    by (simp add: sse_line_def)
  have "ScanLines (sse_line json_long_answer @ sse_line ''[DONE]'') = []"
    unfolding e using n l by (rule ScanLines_too_long)
  then have "message_content (handleNonStreamResponse sample_config long_unmarshal
      (sse_line json_long_answer @ sse_line ''[DONE]'')) = Some []"
    by (simp add: handleNonStreamResponse_def message_content_def completion_def)
  then show ?thesis
    by (simp add: json_long_answer_object long_unmarshal_def sample_event_kinds
        long_delta_facts long_answer_streamed)
qed

text \<open>
  Within the limits of the two readers both paths deliver the concatenation. Let the
  upstream body consist of lines \<open>data: j\<close>, each \<open>j\<close> the text of a JSON object that
  decodes to an event of the answer phase with delta \<open>d\<close> and nothing else, followed by
  a done marker (the line \<open>data: [DONE]\<close> or an event that only signals the end), every
  line with its line feed. If every text is shorter than 65530 bytes (so that the line
  fits the buffer of the scanner), every read of the body returns at most 512 KiB (so
  that the guard on the line buffer drops nothing), only the last read reports an
  error, and the client stays connected, then the \<open>delta.content\<close> of the frames of
  the streaming response concatenate to \<open>d1 || ... || dn\<close>, and the \<open>message.content\<close>
  of the non-streaming response is the same text.
\<close>

theorem answer_deltas_concatenated:
  assumes events: "\<forall>e \<in> set evs. json_object (fst e) \<and> length (fst e) < 65530 \<and>
        (\<exists>u. unmarshal (fst e) = Some u \<and> answer_delta u (snd e))"
    and marker: "marker = ''[DONE]'' \<or>
        (json_object marker \<and> length marker < 65530 \<and>
         (\<exists>u. unmarshal marker = Some u \<and> done_signal u))"
    and body: "concat (map fst (body_reads env)) =
        concat (map (\<lambda>e. sse_line (fst e)) evs) @ sse_line marker"
    and sizes: "\<forall>r \<in> set (body_reads env). length (fst r) \<le> 524288"
    and errs: "\<forall>r \<in> set (butlast (body_reads env)). snd r = None"
    and flusher: "flusher_ok env"
    and buf: "0 \<le> streamBufferSize cfg"
    and stay: "client_stays cfg (client_alive env)"
  shows "(\<exists>fs. Body (handleStreamResponse cfg unmarshal env) = Event_stream fs \<and>
            stream_content fs = concat (map snd evs)) \<and>
         message_content (handleNonStreamResponse cfg unmarshal
            (delivered_bytes (body_reads env))) = Some (concat (map snd evs))"
proof -
  have events': "\<forall>e \<in> set evs. json_object (fst e) \<and>
        (\<exists>u. unmarshal (fst e) = Some u \<and> answer_delta u (snd e))"
    using events by blast
  have marker': "marker = ''[DONE]'' \<or>
        (json_object marker \<and> (\<exists>u. unmarshal marker = Some u \<and> done_signal u))"
    using marker by blast
  let ?fs = "Chunk firstChunk # answer_frames (map snd evs) @
           (if marker = ''[DONE]'' then [DONE] else [Chunk endChunk, DONE])"
  have "written (final (translate_stream cfg unmarshal env)) = ?fs"
    by (simp only: translate_answers [OF events' marker' body sizes errs buf stay]
        final_simps translator.simps)
  then have b: "Body (handleStreamResponse cfg unmarshal env) = Event_stream ?fs"
    using flusher by (simp only: handleStreamResponse_body)
  have "stream_content ([Chunk firstChunk] @ answer_frames (map snd evs) @
           (if marker = ''[DONE]'' then [DONE] else [Chunk endChunk, DONE])) =
        concat (map snd evs)"
    by (simp only: stream_content_append stream_content_answer_frames stream_content_fixed
        if_distrib [of stream_content] if_cancel append_Nil append_Nil2)
  then have c: "stream_content ?fs = concat (map snd evs)"
    by simp
  have "delivered_bytes (body_reads env) =
      concat (map (\<lambda>e. sse_line (fst e)) evs) @ sse_line marker"
    using errs by (simp only: delivered_bytes_concat body)
  then have "message_content (handleNonStreamResponse cfg unmarshal
      (delivered_bytes (body_reads env))) = Some (concat (map snd evs))"
    by (simp add: handleNonStreamResponse_def message_content_def completion_def
        aggregate_answers [OF events marker] del: collect_content.simps)
  with b c show ?thesis by blast
qed

theorem answer_deltas_concatenated_witness:
  "(\<exists>fs. Body (handleStreamResponse sample_config sample_unmarshal
             (sample_upstream sample_reads)) = Event_stream fs \<and>
          stream_content fs = ''Hello'') \<and>
   message_content (handleNonStreamResponse sample_config sample_unmarshal
      (delivered_bytes (body_reads (sample_upstream sample_reads)))) = Some ''Hello''"
proof -
  have events: "\<forall>e \<in> set sample_events. json_object (fst e) \<and> length (fst e) < 65530 \<and>
        (\<exists>u. sample_unmarshal (fst e) = Some u \<and> answer_delta u (snd e))"
    by (simp add: sample_events_def sample_json_objects sample_json_lengths
        sample_unmarshal_simps sample_event_kinds)
  have marker: "json_done = ''[DONE]'' \<or>
        (json_object json_done \<and> length json_done < 65530 \<and>
         (\<exists>u. sample_unmarshal json_done = Some u \<and> done_signal u))"
    by (simp add: sample_json_objects sample_json_lengths sample_unmarshal_simps
        sample_event_kinds)
  have body: "concat (map fst (body_reads (sample_upstream sample_reads))) =
        concat (map (\<lambda>e. sse_line (fst e)) sample_events) @ sse_line json_done"
    by (simp add: sample_environment sample_reads_def sample_events_def)
  have sizes: "\<forall>r \<in> set (body_reads (sample_upstream sample_reads)). length (fst r) \<le> 524288"
    by (simp add: sample_environment sample_reads_def sse_line_def data_line_def
        json_answer_Hel_def json_answer_lo_def json_done_def)
  have errs: "\<forall>r \<in> set (butlast (body_reads (sample_upstream sample_reads))). snd r = None"
    by (simp add: sample_environment sample_reads_def)
  from answer_deltas_concatenated [OF events marker body sizes errs
      sample_environment(1) sample_environment(4) sample_environment(3)]
  show ?thesis
    by (simp add: sample_events_def)
qed


section \<open>The terminal line\<close>




text \<open>
  Each condition under which the closing line is reached is needed. In the four runs
  below the upstream body holds the line \<open>data: [DONE]\<close> and the response is the
  opener alone: the client has gone, the read fails, the read is so long that the guard
  drops the line, the buffer size is negative.
\<close>

lemma client_gone_no_terminal_line:
  "closing_line unmarshal (data_line ''[DONE]'') \<and>
   body_lines (sse_line ''[DONE]'') = [data_line ''[DONE]'', []] \<and>
   Body (handleStreamResponse (sample_config\<lparr>connectionCheckInterval := 1\<rparr>) unmarshal
      \<lparr>flusher_ok = True, body_reads = [(sse_line ''[DONE]'', Some EOF)],
       client_alive = (\<lambda>n. False)\<rparr>) = Event_stream [Chunk firstChunk]"
  using body_lines_line [OF DONE_line_facts(1), of "[]"]
  by (simp add: handleStreamResponse_def translate_stream_def Let_def sample_config_def
      read_loop.simps [of _ _ _ "_ # _"] initial_translator_def final_think_flush_def
      emit_def sse_line_def body_lines_Nil signed_modulo_int_def DONE_line_facts)

lemma read_failure_no_terminal_line:
  "closing_line unmarshal (data_line ''[DONE]'') \<and>
   body_lines (data_line ''[DONE]'') = [data_line ''[DONE]''] \<and>
   Body (handleStreamResponse sample_config unmarshal
      (sample_upstream [(data_line ''[DONE]'', Some ReadFailed)])) = Event_stream [Chunk firstChunk]"
proof -
  let ?init = "emit (Chunk firstChunk) initial_translator"
  have "guard_lineBuffer ([] @ data_line ''[DONE]'') = [] @ data_line ''[DONE]''"
    by (rule guard_lineBuffer_id) (simp_all add: DONE_line_facts)
  then have "read_loop sample_config unmarshal (client_alive (sample_upstream reads))
      [(data_line ''[DONE]'', Some ReadFailed)] [] 0 ?init = Returned ?init" for reads
    by (simp add: read_loop_Cons [OF sample_environment(3)] initial_translator_def
        process_lines_no_nl DONE_line_facts)
  then show ?thesis
    by (simp add: handleStreamResponse_def translate_stream_def Let_def sample_environment
        final_think_flush_def initial_translator_def emit_def body_lines_last DONE_line_facts
        sample_config_fields)
qed

lemma oversized_read_no_terminal_line:
  "closing_line unmarshal (data_line ''[DONE]'') \<and>
   body_lines oversized_read = [data_line ''[DONE]'', padding] \<and>
   1048576 < length oversized_read \<and>
   Body (handleStreamResponse sample_config unmarshal
      (sample_upstream [(oversized_read, Some EOF)])) = Event_stream [Chunk firstChunk]"
proof -
  let ?init = "emit (Chunk firstChunk) initial_translator"
  have e: "oversized_read = data_line ''[DONE]'' @ CHR 0x0A # padding"
    by (simp add: oversized_read_def sse_line_def)
  have ne: "oversized_read \<noteq> []"
    by (simp add: e)
  have "read_loop sample_config unmarshal (client_alive (sample_upstream reads))
      [(oversized_read, Some EOF)] [] 0 ?init = Returned ?init" for reads
    by (simp add: read_loop_Cons [OF sample_environment(3)] initial_translator_def ne
        guard_oversized_read process_lines_no_nl padding_facts at_eof_def
        processStreamLine_padding)
  then show ?thesis
    by (simp add: handleStreamResponse_def translate_stream_def Let_def sample_environment
        final_think_flush_def initial_translator_def emit_def e body_lines_line
        body_lines_last DONE_line_facts padding_facts sample_config_fields)
qed

lemma negative_buffer_no_terminal_line:
  "closing_line unmarshal (data_line ''[DONE]'') \<and>
   Body (handleStreamResponse (sample_config\<lparr>streamBufferSize := - 1\<rparr>) unmarshal
      (sample_upstream [(sse_line ''[DONE]'', Some EOF)])) = Event_stream [Chunk firstChunk]"
  by (simp add: handleStreamResponse_def translate_stream_def Let_def sample_environment
      initial_translator_def emit_def DONE_line_facts)


section \<open>The opener\<close>

text \<open>
  C6. The body of a streaming response starts with the opener: a chunk whose delta
  has the role \<open>assistant\<close>, no content, no reasoning content and no finish reason. It
  is written before the upstream body is read, so it precedes every content,
  reasoning and finish chunk. (When the response writer cannot flush, the handler
  answers with status 500 and no frame at all.)
\<close>

theorem opener_first:
  "(if flusher_ok env
    then \<exists>rest. Body (handleStreamResponse cfg unmarshal env) =
                  Event_stream (Chunk firstChunk # rest)
    else Body (handleStreamResponse cfg unmarshal env) = Error_text ''Streaming unsupported'') \<and>
   map Delta (Choices firstChunk) =
     [\<lparr>delta_Role = ''assistant'', delta_Content = [], delta_ReasoningContent = []\<rparr>] \<and>
   map FinishReason (Choices firstChunk) = [[]]"
proof -
  let ?init = "emit (Chunk firstChunk) initial_translator"
  have w0: "written ?init = [Chunk firstChunk]"
    by (simp add: initial_translator_def)
  have "prefix (written ?init) (written (final (translate_stream cfg unmarshal env)))"
  proof (cases "streamBufferSize cfg < 0")
    case True
    then show ?thesis by (simp only: translate_stream_final if_True prefix_order.refl)
  next
    case False
    then show ?thesis
      by (simp only: translate_stream_final if_False read_loop_written_prefix)
  qed
  then obtain rest where
    "written (final (translate_stream cfg unmarshal env)) = Chunk firstChunk # rest"
    unfolding w0 by (auto simp: prefix_def)
  then have "flusher_ok env \<Longrightarrow> \<exists>rest. Body (handleStreamResponse cfg unmarshal env) =
      Event_stream (Chunk firstChunk # rest)"
    by (simp add: handleStreamResponse_body)
  moreover have "\<not> flusher_ok env \<Longrightarrow>
      Body (handleStreamResponse cfg unmarshal env) = Error_text ''Streaming unsupported''"
    by (simp add: handleStreamResponse_def)
  ultimately show ?thesis
    by (simp add: firstChunk_def stream_chunk_def zero_Delta_def)
qed

theorem opener_first_witness:
  "flusher_ok (sample_upstream sample_reads) \<and>
   (\<exists>rest. Body (handleStreamResponse sample_config sample_unmarshal
               (sample_upstream sample_reads)) = Event_stream (Chunk firstChunk # rest)) \<and>
   Body (handleStreamResponse sample_config sample_unmarshal (sample_upstream sample_reads)) =
     Event_stream [Chunk firstChunk, Chunk (content_chunk ''Hel''),
                   Chunk (content_chunk ''lo''), Chunk endChunk, DONE]"
proof -
  have f: "flusher_ok (sample_upstream sample_reads)"
    by (rule sample_environment)
  from opener_first [of "sample_upstream sample_reads" sample_config sample_unmarshal] f
  show ?thesis
    by (simp add: handleStreamResponse_body sample_stream)
qed


section \<open>The buffer for thinking content\<close>

text \<open>
  C9. \<open>processStreamLine\<close> leaves \<open>isInThinkBlock\<close> and \<open>bufferedThinkContent\<close> as they
  are, for every line and every state. So the translator ends, whatever the upstream
  sends, with the initial values \<open>false\<close> and the empty text; the guard of the flush
  is false at both places where the code tests it: an upstream \<open>[DONE]\<close> line writes
  the terminal line only, and the flush after the read loop writes nothing.
\<close>

theorem think_buffer_never_used:
  "isInThinkBlock (processStreamLine cfg unmarshal line t) = isInThinkBlock t \<and>
   bufferedThinkContent (processStreamLine cfg unmarshal line t) = bufferedThinkContent t \<and>
   isInThinkBlock (final (translate_stream cfg unmarshal env)) = False \<and>
   bufferedThinkContent (final (translate_stream cfg unmarshal env)) = [] \<and>
   written (processStreamLine cfg unmarshal (data_line ''[DONE]'')
              (final (translate_stream cfg unmarshal env))) =
     written (final (translate_stream cfg unmarshal env)) @ [DONE] \<and>
   final_think_flush (final (translate_stream cfg unmarshal env)) =
     final (translate_stream cfg unmarshal env)"
proof -
  let ?init = "emit (Chunk firstChunk) initial_translator"
  let ?t = "final (translate_stream cfg unmarshal env)"
  have f: "isInThinkBlock ?t = False" "bufferedThinkContent ?t = []"
    using read_loop_flags [of cfg unmarshal "client_alive env" "body_reads env" "[]" 0 ?init]
    by (simp_all add: translate_stream_final initial_translator_def)
  have d: "written (processStreamLine cfg unmarshal (data_line ''[DONE]'') ?t) =
      written ?t @ [DONE]"
    using f(1) by (simp add: processStreamLine_DONE)
  from f d show ?thesis
    by (simp add: processStreamLine_flags final_think_flush_def)
qed


section \<open>Routing of a delta\<close>

text \<open>
  C5, amended. For every upstream event with non-empty \<open>delta_content\<close> and without an
  error (at top level, in \<open>data.error\<close> or in \<open>data.data.error\<close>) that the streaming
  translator decodes from a \<open>data:\<close> line: after the chunk of the initial answer, if
  any, the translator writes, for the phase \<open>thinking\<close>, a chunk whose delta carries
  the transformed delta in \<open>reasoning_content\<close> and nothing in \<open>content\<close> (no chunk
  when the transformed text is empty), and for every other phase a chunk whose delta
  carries the unmodified \<open>delta_content\<close> in \<open>content\<close>; the finish chunk and the
  terminal line follow when the event signals the end.
\<close>

theorem delta_routing:
  assumes "HasPrefix (TrimSpace line) ''data: ''"
    and "TrimSpace (drop 6 (TrimSpace line)) = js"
    and "js \<noteq> ''[DONE]''" and "js \<noteq> []"
    and "unmarshal js = Some u"
    and "\<not> has_error u"
    and "DeltaContent (Data u) \<noteq> []"
  shows "written (processStreamLine cfg unmarshal line t) =
           written (initial_answer u t) @
           (if Phase (Data u) = ''thinking''
            then (if transformThinking cfg (DeltaContent (Data u)) \<noteq> []
                  then [Chunk (reasoning_chunk (transformThinking cfg (DeltaContent (Data u))))]
                  else [])
            else [Chunk (content_chunk (DeltaContent (Data u)))]) @
           (if Done (Data u) \<or> Phase (Data u) = ''done'' then [Chunk endChunk, DONE] else []) \<and>
         map Delta (Choices (reasoning_chunk (transformThinking cfg (DeltaContent (Data u))))) =
           [\<lparr>delta_Role = [], delta_Content = [],
             delta_ReasoningContent = transformThinking cfg (DeltaContent (Data u))\<rparr>] \<and>
         map Delta (Choices (content_chunk (DeltaContent (Data u)))) =
           [\<lparr>delta_Role = [], delta_Content = DeltaContent (Data u),
             delta_ReasoningContent = []\<rparr>]"
proof -
  have "processStreamLine cfg unmarshal line t =
      done_detection u (delta_emission cfg u (initial_answer u t))"
    using assms(6) processStreamLine_decoded [of line js unmarshal u cfg t, OF assms(1-5)]
    by simp
  then show ?thesis
    using assms(7)
    by (simp add: done_detection_def delta_emission_def Let_def chunk_shapes)
qed

theorem delta_routing_witness:
  "written (processStreamLine sample_config sample_unmarshal (data_line json_thinking)
      initial_translator) = [Chunk (reasoning_chunk ''<think>reasoning</think>'')] \<and>
   map Delta (Choices (reasoning_chunk ''<think>reasoning</think>'')) =
     [\<lparr>delta_Role = [], delta_Content = [],
       delta_ReasoningContent = ''<think>reasoning</think>''\<rparr>]"
proof -
  let ?u = "event ''thinking'' ''<details open>reasoning</details>'' False"
  have 1: "HasPrefix (TrimSpace (data_line json_thinking)) ''data: ''"
    unfolding sample_thinking_line by (simp add: HasPrefix_def data_line_def)
  have "drop 6 (data_line json_thinking) = json_thinking"
    by (simp add: data_line_def)
  then have 2: "TrimSpace (drop 6 (TrimSpace (data_line json_thinking))) = json_thinking"
    unfolding sample_thinking_line by (simp only: sample_thinking_line)
  have 3: "json_thinking \<noteq> ''[DONE]''" "json_thinking \<noteq> []"
    by (simp_all add: json_thinking_def)
  have 4: "\<not> has_error ?u" "DeltaContent (Data ?u) \<noteq> []"
    by (simp_all add: has_error_def event_def)
  from delta_routing [of "data_line json_thinking" json_thinking sample_unmarshal ?u
      sample_config initial_translator, OF 1 2 3 sample_unmarshal_more(1) 4]
  show ?thesis
    by (simp add: event_def sample_thinking_transformed initial_answer_def
        initial_translator_def)
qed

text \<open>
  The claim as stated fails for an event that carries an error together with a delta:
  the error check comes first and ends the stream, and no content chunk is written.
\<close>

theorem error_event_drops_delta:
  "sample_unmarshal json_error_with_delta =
     Some ((event ''answer'' ''Hel'' False)\<lparr>Error := Some \<lparr>Detail = ''busy'', Code = 500\<rparr>\<rparr>) \<and>
   DeltaContent (Data ((event ''answer'' ''Hel'' False)
      \<lparr>Error := Some \<lparr>Detail = ''busy'', Code = 500\<rparr>\<rparr>)) = ''Hel'' \<and>
   written (processStreamLine sample_config sample_unmarshal (data_line json_error_with_delta)
      initial_translator) = [Chunk endChunk, DONE] \<and>
   Chunk (content_chunk ''Hel'') \<notin> set [Chunk endChunk, DONE]"
proof -
  have "written (processStreamLine sample_config sample_unmarshal
      (data_line json_error_with_delta) initial_translator) = [Chunk endChunk, DONE]"
    by (simp add: processStreamLine_event [OF sample_json_objects(5)] sample_unmarshal_more
        has_error_def event_def initial_translator_def)
  moreover have "Chunk (content_chunk ''Hel'') \<notin> set [Chunk endChunk, DONE]"
    by (simp add: content_chunk_def endChunk_def stream_chunk_def zero_Delta_def)
  ultimately show ?thesis
    by (simp add: sample_unmarshal_more event_def)
qed


section \<open>The counters\<close>

text \<open>
  C2. A streaming request that the gate admits and the upstream answers with status
  200 after 1500 ms: the handler counts the request, and the response time is not
  added to \<open>totalResponseTime\<close>.
\<close>

theorem streaming_response_time_not_counted:
  "the_counters (chatHandler sample_config sample_unmarshal_request sample_unmarshal
      (sample_request ''stream'' ''Bearer 123456'' sample_reads) zero_counters) =
     \<lparr>requestCount = 1, totalResponseTime = 0, errorCount = 0\<rparr> \<and>
   StatusCode (the_response (chatHandler sample_config sample_unmarshal_request sample_unmarshal
      (sample_request ''stream'' ''Bearer 123456'' sample_reads) zero_counters)) = 200 \<and>
   elapsed_ms (sample_request ''stream'' ''Bearer 123456'' sample_reads) = 1500"
  by (simp add: chatHandler_def sample_request_def sample_key sample_config_fields
      sample_unmarshal_request_def json_request_def sample_dispatch_succeeds
      handleStreamResponse_status sample_environment zero_counters_def Let_def)

text \<open>The same request without streaming: the response time is added.\<close>

lemma plain_response_time_counted:
  "the_counters (chatHandler sample_config sample_unmarshal_request sample_unmarshal
      (sample_request ''plain'' ''Bearer 123456'' sample_reads) zero_counters) =
     \<lparr>requestCount = 1, totalResponseTime = 1500, errorCount = 0\<rparr>"
  by (simp add: chatHandler_def sample_request_def sample_key sample_config_fields
      sample_unmarshal_request_def json_request_def sample_dispatch_succeeds
      zero_counters_def Let_def)

text \<open>A request with a wrong key: status 401, an error is counted, the time is not.\<close>

lemma unauthorized_response_time_not_counted:
  "the_counters (chatHandler sample_config sample_unmarshal_request sample_unmarshal
      (sample_request ''plain'' ''Bearer wrong'' sample_reads) zero_counters) =
     \<lparr>requestCount = 1, totalResponseTime = 0, errorCount = 1\<rparr> \<and>
   StatusCode (the_response (chatHandler sample_config sample_unmarshal_request sample_unmarshal
      (sample_request ''plain'' ''Bearer wrong'' sample_reads) zero_counters)) = 401"
  by (simp add: chatHandler_def sample_request_def sample_key sample_config_fields
      error_response_def zero_counters_def Let_def)


section \<open>The counter of connections\<close>

text \<open>
  C7. With a limit of one connection and two requests: the first request takes the
  slot, is counted, and on its way out gives the slot back; before it decrements the
  counter the second request takes the slot and is counted. The counter is 2.
\<close>

theorem connections_exceed_limit:
  "maxConcurrentConnections (sample_config\<lparr>maxConcurrentConnections := 1\<rparr>) = 1 \<and>
   run (sample_config\<lparr>maxConcurrentConnections := 1\<rparr>) [0, 0, 0, 1, 1] (idle_server 2) =
     \<lparr>semaphore = 1, currentConnections = 2, requests = [Released, Serving]\<rparr>"
  by (simp add: step_def idle_server_def numeral_2_eq_2)


section \<open>Backoff and jitter\<close>

text \<open>
  C3, amended. Let the attempts of the dispatcher be numbered from 1, attempt \<open>i + 1\<close>
  being the request of iteration \<open>i\<close> of the loop. Before each attempt except the first
  the dispatcher sleeps exactly \<open>retry_base_delay_ms * 2^i\<close> milliseconds, that is
  \<open>retry_base_delay_ms * 2^(attempt - 1)\<close> (after the wait for a rate limit, when the
  attempt before got status 429 or 403). Before every attempt, the first included, it
  then sleeps a random number of milliseconds from \<open>jitter_min_ms\<close> up to
  \<open>jitter_max_ms - 1\<close> when \<open>jitter_max_ms > jitter_min_ms\<close>, and does not sleep
  otherwise. (The durations are those of the code as long as they fit 64 bits of
  nanoseconds; that the random number is uniform is not stated here.)
\<close>

theorem pauses_before_attempt:
  assumes run: "pauses_before i [] (snd (requestWithRetry cfg env)) = Some ps"
    and delay: "0 \<le> retryDelay cfg" "retryDelay cfg * 2 ^ i * 1000000 < 2 ^ 63"
    and jitter: "0 \<le> randomDelayMin cfg" "randomDelayMax cfg * 1000000 < 2 ^ 63"
  shows "ps =
      (if i = 0 then []
       else wait_of cfg env (i - 1) @ [Backoff (retryDelay cfg * 2 ^ i * Millisecond)]) @
      (if randomDelayMax cfg > randomDelayMin cfg
       then [Jitter ((randomDelayMin cfg +
                      random_source env i mod (randomDelayMax cfg - randomDelayMin cfg)) *
                     Millisecond)]
       else []) \<and>
    (randomDelayMax cfg > randomDelayMin cfg \<longrightarrow>
       randomDelayMin cfg \<le>
         randomDelayMin cfg + random_source env i mod (randomDelayMax cfg - randomDelayMin cfg) \<and>
       randomDelayMin cfg + random_source env i mod (randomDelayMax cfg - randomDelayMin cfg)
         < randomDelayMax cfg)"
proof -
  have j: "jitter_of cfg env i =
      (if randomDelayMax cfg > randomDelayMin cfg
       then [Jitter ((randomDelayMin cfg +
                      random_source env i mod (randomDelayMax cfg - randomDelayMin cfg)) *
                     Millisecond)]
       else [])"
    by (simp add: jitter_of_def randomDelay_exact [OF jitter])
  have b: "backoff_of cfg i =
      (if 0 < i then [Backoff (retryDelay cfg * 2 ^ i * Millisecond)] else [])"
    by (simp add: backoff_of_def backoff_duration_exact [OF delay])
  from pauses_before_retry_loop [of i "[]" cfg env "nat (maxRetries cfg)" 0 None ps] run
  have "(i = 0 \<and> ps = backoff_of cfg 0 @ jitter_of cfg env 0) \<or>
      (0 < i \<and> ps = wait_of cfg env (i - 1) @ backoff_of cfg i @ jitter_of cfg env i)"
    by (simp add: requestWithRetry_def)
  then have "ps =
      (if i = 0 then []
       else wait_of cfg env (i - 1) @ [Backoff (retryDelay cfg * 2 ^ i * Millisecond)]) @
      jitter_of cfg env i"
    using b by (auto simp: backoff_of_def)
  moreover have "randomDelayMin cfg + random_source env i mod
      (randomDelayMax cfg - randomDelayMin cfg) < randomDelayMax cfg"
    if "randomDelayMax cfg > randomDelayMin cfg"
  proof -
    from that have "0 < randomDelayMax cfg - randomDelayMin cfg" by simp
    from pos_mod_bound [OF this, of "random_source env i"] show ?thesis by linarith
  qed
  moreover have "0 \<le> random_source env i mod (randomDelayMax cfg - randomDelayMin cfg)"
    if "randomDelayMax cfg > randomDelayMin cfg"
    using that by simp
  ultimately show ?thesis
    by (simp add: j)
qed

theorem pauses_before_attempt_witness:
  "pauses_before 2 []
      (snd (requestWithRetry sample_config limited_dispatch)) =
     Some [RateLimitWait 2000000000, Backoff 4000000000, Jitter 107000000] \<and>
   0 \<le> retryDelay sample_config \<and> retryDelay sample_config * 2 ^ 2 * 1000000 < 2 ^ 63 \<and>
   0 \<le> randomDelayMin sample_config \<and> randomDelayMax sample_config * 1000000 < 2 ^ 63 \<and>
   [RateLimitWait 2000000000, Backoff 4000000000, Jitter 107000000] =
     wait_of sample_config limited_dispatch 1 @ [Backoff (1000 * 2 ^ 2 * Millisecond)] @
     [Jitter ((100 + 7 mod (500 - 100)) * Millisecond)]"
proof -
  have run: "pauses_before 2 [] (snd (requestWithRetry sample_config limited_dispatch)) =
      Some [RateLimitWait 2000000000, Backoff 4000000000, Jitter 107000000]"
    by (simp add: limited_dispatch_events)
  have delay: "0 \<le> retryDelay sample_config"
      "retryDelay sample_config * 2 ^ 2 * 1000000 < 2 ^ 63"
    by (simp_all add: sample_config_def)
  have jitter: "0 \<le> randomDelayMin sample_config"
      "randomDelayMax sample_config * 1000000 < 2 ^ 63"
    by (simp_all add: sample_config_def)
  from pauses_before_attempt [OF run delay jitter] run delay jitter show ?thesis
    by (simp add: sample_config_def limited_dispatch_def sample_dispatch_def)
qed

text \<open>
  The claim as stated fails at the first attempt: with the default jitter of 100 to
  500 ms the dispatcher sleeps (here 107 ms) before its first request.
\<close>

theorem jitter_before_first_attempt:
  "snd (requestWithRetry sample_config sample_dispatch) = [Jitter 107000000, Post 0] \<and>
   pauses_before 0 [] (snd (requestWithRetry sample_config sample_dispatch)) =
     Some [Jitter 107000000]"
  by (simp add: sample_dispatch_events)


section \<open>Idempotence of the thinking transformer\<close>

text \<open>
  C8, amended. The thinking transformer is idempotent (applying it twice equals
  applying it once) on every input string that contains no \<open><summary>\<close> span, no
  \<open><details>\<close> tag (opening, with or without attributes, or closing), none of the
  literal substrings \<open></thinking>\<close>, \<open><Full>\<close>, \<open></Full>\<close>, and no \<open>> \<close> line
  prefixes, neither at its start, nor after a line feed, nor at its start once the
  surrounding white space is trimmed.
\<close>

theorem transformThinking_idempotent:
  assumes summary: "\<forall>b. \<not> sublist (''<summary>'' @ b @ ''</summary>'') s"
    and details: "\<forall>b. \<not> sublist (''<details'' @ b @ ''>'') s" "\<not> sublist ''</details>'' s"
    and literals: "\<not> sublist ''</thinking>'' s" "\<not> sublist ''<Full>'' s" "\<not> sublist ''</Full>'' s"
    and quoted: "\<not> prefix ''> '' s" "\<not> sublist [CHR 0x0A, CHR ''>'', CHR '' ''] s"
    and trimmed: "\<not> prefix ''> '' (TrimSpace s)"
  shows "transformThinking cfg (transformThinking cfg s) = transformThinking cfg s"
proof -
  let ?t = "TrimSpace s"
  have 1: "transformThinking cfg s = ?t"
    using summary details literals quoted(2) trimmed by (rule transformThinking_plain)
  have "transformThinking cfg ?t = TrimSpace ?t"
  proof (rule transformThinking_plain)
    show "\<forall>b. \<not> sublist (''<summary>'' @ b @ ''</summary>'') ?t"
      using summary by (meson sublist_TrimSpace)
    show "\<forall>b. \<not> sublist (''<details'' @ b @ ''>'') ?t"
      using details(1) by (meson sublist_TrimSpace)
    show "\<not> prefix ''> '' (TrimSpace ?t)"
      using trimmed by (simp add: TrimSpace_idem)
  qed (use details literals quoted in \<open>simp_all only: sublist_TrimSpace not_False_eq_True\<close>)
  then show ?thesis
    by (simp only: 1 TrimSpace_idem)
qed

theorem transformThinking_idempotent_witness:
  "(\<forall>b. \<not> sublist (''<summary>'' @ b @ ''</summary>'') ''  plan the answer '') \<and>
   (\<forall>b. \<not> sublist (''<details'' @ b @ ''>'') ''  plan the answer '') \<and>
   \<not> sublist ''</details>'' ''  plan the answer '' \<and>
   \<not> sublist ''</thinking>'' ''  plan the answer '' \<and>
   \<not> sublist ''<Full>'' ''  plan the answer '' \<and>
   \<not> sublist ''</Full>'' ''  plan the answer '' \<and>
   \<not> prefix ''> '' ''  plan the answer '' \<and>
   \<not> sublist [CHR 0x0A, CHR ''>'', CHR '' ''] ''  plan the answer '' \<and>
   \<not> prefix ''> '' (TrimSpace ''  plan the answer '') \<and>
   transformThinking sample_config ''  plan the answer '' = ''plan the answer'' \<and>
   transformThinking sample_config
     (transformThinking sample_config ''  plan the answer '') =
   transformThinking sample_config ''  plan the answer ''"
proof -
  let ?s = "''  plan the answer ''"
  have t: "TrimSpace ?s = ''plan the answer''"
    by code_simp
  have tags: "\<not> sublist p ?s" if "CHR ''<'' \<in> set p" for p
    using that sublist_chars [of p ?s] by auto
  have quoted: "\<not> sublist p ?s" if "CHR ''>'' \<in> set p" for p
    using that sublist_chars [of p ?s] by auto
  have summary: "\<forall>b. \<not> sublist (''<summary>'' @ b @ ''</summary>'') ?s"
    and details: "\<forall>b. \<not> sublist (''<details'' @ b @ ''>'') ?s" "\<not> sublist ''</details>'' ?s"
    and literals: "\<not> sublist ''</thinking>'' ?s" "\<not> sublist ''<Full>'' ?s"
      "\<not> sublist ''</Full>'' ?s"
    by (simp_all add: tags)
  have lines: "\<not> prefix ''> '' ?s" "\<not> sublist [CHR 0x0A, CHR ''>'', CHR '' ''] ?s"
    by (simp_all add: quoted)
  have trimmed: "\<not> prefix ''> '' (TrimSpace ?s)"
    by (simp add: t)
  have result: "transformThinking sample_config ?s = ''plan the answer''"
    by code_simp
  from transformThinking_idempotent [OF summary details literals lines trimmed]
    summary details literals lines trimmed result
  show ?thesis by blast
qed

text \<open>
  Without the condition on the trimmed input the claim fails: the input \<open> > > b\<close>
  has none of the excluded parts (it starts with a space), the transformer trims it
  and removes one line prefix, and a second application removes the next one.
\<close>

theorem quoted_line_after_trimming:
  "(\<forall>b. \<not> sublist (''<summary>'' @ b @ ''</summary>'') '' > > b'') \<and>
   (\<forall>b. \<not> sublist (''<details'' @ b @ ''>'') '' > > b'') \<and>
   \<not> sublist ''</details>'' '' > > b'' \<and>
   \<not> sublist ''</thinking>'' '' > > b'' \<and>
   \<not> sublist ''<Full>'' '' > > b'' \<and>
   \<not> sublist ''</Full>'' '' > > b'' \<and>
   \<not> prefix ''> '' '' > > b'' \<and>
   \<not> sublist [CHR 0x0A, CHR ''>'', CHR '' ''] '' > > b'' \<and>
   transformThinking sample_config '' > > b'' = ''> b'' \<and>
   transformThinking sample_config (transformThinking sample_config '' > > b'') = ''b''"
proof -
  let ?s = "'' > > b''"
  have tags: "\<not> sublist p ?s" if "CHR ''<'' \<in> set p" for p
    using that sublist_chars [of p ?s] by auto
  have lines: "\<not> sublist p ?s" if "CHR 0x0A \<in> set p" for p
    using that sublist_chars [of p ?s] by auto
  have absent: "\<forall>b. \<not> sublist (''<summary>'' @ b @ ''</summary>'') ?s"
    "\<forall>b. \<not> sublist (''<details'' @ b @ ''>'') ?s" "\<not> sublist ''</details>'' ?s"
    "\<not> sublist ''</thinking>'' ?s" "\<not> sublist ''<Full>'' ?s" "\<not> sublist ''</Full>'' ?s"
    by (simp_all add: tags)
  have quoted: "\<not> prefix ''> '' ?s" "\<not> sublist [CHR 0x0A, CHR ''>'', CHR '' ''] ?s"
    by (simp_all add: lines)
  have once: "transformThinking sample_config ?s = ''> b''"
    by code_simp
  have twice: "transformThinking sample_config ''> b'' = ''b''"
    by code_simp
  from absent quoted once twice show ?thesis
    by (simp only: simp_thms)
qed


end
